theory Spec2Isabelle
  imports Complex_Main "HOL-Library.AList" "HOL-Library.Log_Nat" "HOL-Library.Word"
begin

section \<open>JavaScript values used by the Spark prototype\<close>

subsection \<open>Strings\<close>

text \<open>
  A JavaScript string is a sequence of UTF-16 code units. Identifiers, names and message
  texts are such sequences; \<open>lit\<close> writes an ASCII literal of the source.
\<close>

type_synonym js_string = "16 word list"

definition lit :: "string \<Rightarrow> js_string" where
  "lit s = map of_char s"

text \<open>
  \<open>String.prototype.trim\<close> removes the leading and the trailing run of white space and
  line terminators (ECMAScript: TAB, VT, FF, SP, NBSP, ZWNBSP, the Unicode category Zs,
  and LF, CR, LS, PS). All of them are single code units.
\<close>

definition white_space :: "16 word \<Rightarrow> bool" where
  "white_space c \<longleftrightarrow>
     c = 0x09 \<or> c = 0x0A \<or> c = 0x0B \<or> c = 0x0C \<or> c = 0x0D \<or> c = 0x20 \<or> c = 0xA0 \<or>
     c = 0x1680 \<or> (0x2000 \<le> c \<and> c \<le> 0x200A) \<or> c = 0x2028 \<or> c = 0x2029 \<or>
     c = 0x202F \<or> c = 0x205F \<or> c = 0x3000 \<or> c = 0xFEFF"

definition trim :: "js_string \<Rightarrow> js_string" where
  "trim s = rev (dropWhile white_space (rev (dropWhile white_space s)))"

text \<open>A string is falsy exactly when it is empty: \<open>s || d\<close>.\<close>

definition or_else :: "js_string \<Rightarrow> js_string \<Rightarrow> js_string" where
  "or_else s d = (if s = [] then d else s)"

subsection \<open>Numbers\<close>

text \<open>
  Time stamps are the results of \<open>Date.now()\<close>: integral numbers of milliseconds of
  magnitude at most 8.64e15, below 2^53, where the double arithmetic the code performs on
  them (adding 86400000, subtracting two of them, comparing) is exact. They are modelled
  by \<open>int\<close>.

  Coordinates and the radius are IEEE 754 binary64 values, and the distance test
  subtracts, multiplies, adds, takes a square root and compares, each arithmetic operation
  rounding its exact result to the nearest double, ties to even. \<open>number\<close> is such a value:
  not-a-number, an infinity, or a finite value \<open>Fin x\<close>. The operations below return doubles
  when given doubles; what is proved of them holds for every finite \<open>x\<close>, representable
  or not. The sign of a zero is not recorded: for \<open>-0\<close> and \<open>+0\<close> the results of \<open>-\<close>,
  \<open>*\<close>, \<open>+\<close> and \<open>Math.sqrt\<close> differ at most in the sign of a zero, and \<open><=\<close> does not
  tell the two apart.
\<close>

datatype number = NaN | PosInf | NegInf | Fin real

text \<open>The integer nearest to \<open>y\<close>, the even one of the two when \<open>y\<close> is half-way.\<close>

definition ties_even :: "real \<Rightarrow> int" where
  "ties_even y =
     (let f = \<lfloor>y\<rfloor>; d = y - of_int f
      in if d < 1 / 2 then f else if 1 / 2 < d then f + 1 else if even f then f else f + 1)"

text \<open>\<open>floor_log2 x\<close> is the integer \<open>e\<close> with \<open>2^e \<le> x < 2^(e+1)\<close>, for \<open>x > 0\<close>.\<close>

definition floor_log2 :: "real \<Rightarrow> int" where
  "floor_log2 x = (if 1 \<le> x then bitlen \<lfloor>x\<rfloor> - 1 else - bitlen (\<lceil>1 / x\<rceil> - 1))"

text \<open>
  The spacing of the doubles around \<open>x\<close>: 53 significant bits in the normal range, the
  fixed spacing \<open>2^-1074\<close> of the subnormal range below \<open>2^-1022\<close>.
\<close>

definition quantum :: "real \<Rightarrow> real" where
  "quantum x = 2 powi (max (floor_log2 \<bar>x\<bar>) (- 1022) - 52)"

text \<open>
  Rounding an exact result: the nearest multiple of the spacing, and an infinity when that
  multiple reaches \<open>2^1024\<close>.
\<close>

definition to_double :: "real \<Rightarrow> number" where
  "to_double x =
     (if x = 0 then Fin 0
      else let q = quantum x; y = of_int (ties_even (x / q)) * q
           in if 2 ^ 1024 \<le> y then PosInf else if y \<le> - (2 ^ 1024) then NegInf else Fin y)"

fun js_add :: "number \<Rightarrow> number \<Rightarrow> number" where
  "js_add NaN _ = NaN"
| "js_add _ NaN = NaN"
| "js_add PosInf NegInf = NaN"
| "js_add NegInf PosInf = NaN"
| "js_add PosInf _ = PosInf"
| "js_add _ PosInf = PosInf"
| "js_add NegInf _ = NegInf"
| "js_add _ NegInf = NegInf"
| "js_add (Fin x) (Fin y) = to_double (x + y)"

fun js_neg :: "number \<Rightarrow> number" where
  "js_neg NaN = NaN"
| "js_neg PosInf = NegInf"
| "js_neg NegInf = PosInf"
| "js_neg (Fin x) = Fin (- x)"

definition js_sub :: "number \<Rightarrow> number \<Rightarrow> number" where
  "js_sub a b = js_add a (js_neg b)"

text \<open>
  A product with an infinite operand: not-a-number when the other operand is zero,
  otherwise the infinity whose sign is the product of the signs.
\<close>

fun js_sign :: "number \<Rightarrow> real" where
  "js_sign NaN = 0"
| "js_sign PosInf = 1"
| "js_sign NegInf = - 1"
| "js_sign (Fin x) = sgn x"

fun js_mul :: "number \<Rightarrow> number \<Rightarrow> number" where
  "js_mul NaN _ = NaN"
| "js_mul _ NaN = NaN"
| "js_mul (Fin x) (Fin y) = to_double (x * y)"
| "js_mul a b =
     (if js_sign a * js_sign b = 0 then NaN
      else if 0 < js_sign a * js_sign b then PosInf else NegInf)"

text \<open>
  \<open>Math.sqrt\<close>: the correctly rounded square root (the IEEE 754 operation every engine
  maps it to); not-a-number below zero.
\<close>

fun js_sqrt :: "number \<Rightarrow> number" where
  "js_sqrt NaN = NaN"
| "js_sqrt PosInf = PosInf"
| "js_sqrt NegInf = NaN"
| "js_sqrt (Fin x) = (if x < 0 then NaN else to_double (sqrt x))"

text \<open>\<open>a <= b\<close>: false as soon as an operand is not a number.\<close>

fun js_le :: "number \<Rightarrow> number \<Rightarrow> bool" where
  "js_le NaN _ = False"
| "js_le _ NaN = False"
| "js_le NegInf _ = True"
| "js_le _ PosInf = True"
| "js_le PosInf _ = False"
| "js_le _ NegInf = False"
| "js_le (Fin x) (Fin y) = (x \<le> y)"

section \<open>The data model\<close>

record Group =
  id_g :: js_string
  name :: js_string
  createdAt :: int
  expiresAt :: int
  lat :: number
  lng :: number
  anonymousAllowed :: bool
  icebreaker :: "js_string option"

record Message =
  id_m :: js_string
  text_m :: js_string
  createdAt_m :: int
  displayName :: js_string
  anonymous :: bool

text \<open>
  The in-memory backend: the array \<open>groups\<close> and the plain object \<open>messages\<close>.
  \<open>messages\<close> holds the own properties of the object, every one an array of messages, in
  the order of their creation (\<open>Object.keys\<close> puts integer-like keys first; no operation
  depends on the order). \<open>prototype\<close> is the prototype of the object: \<open>None\<close> is
  \<open>Object.prototype\<close>, with which \<open>{}\<close> starts, and \<open>Some a\<close> is an array with the elements
  \<open>a\<close>, which the object gets when \<open>[]\<close> is assigned to its property \<open>__proto__\<close>.
\<close>

record backend =
  groups :: "Group list"
  messages :: "(js_string \<times> Message list) list"
  prototype :: "Message list option"

definition init :: backend where
  "init = \<lparr>groups = [], messages = [], prototype = None\<rparr>"

subsection \<open>Reading and writing a property of \<open>messages\<close>\<close>

text \<open>
  What a property read can find: nothing, an array of messages, a message (an element of
  a prototype array), a number (the length of a prototype array), or something else that
  a prototype provides (a built-in function, or \<open>Object.prototype\<close> itself).
\<close>

datatype js_value = Undefined | Array "Message list" | Object Message | Number nat | Builtin

datatype js_error = TypeError

text \<open>
  The string-keyed properties of \<open>Object.prototype\<close> (the accessor \<open>__proto__\<close> apart) and
  of \<open>Array.prototype\<close> beyond those, as ECMAScript 2023 with its Annex B lists them. All
  of them are functions.
\<close>

definition object_prototype_names :: "js_string list" where
  "object_prototype_names =
     map lit [''constructor'', ''hasOwnProperty'', ''isPrototypeOf'', ''propertyIsEnumerable'',
       ''toLocaleString'', ''toString'', ''valueOf'', ''__defineGetter__'', ''__defineSetter__'',
       ''__lookupGetter__'', ''__lookupSetter__'']"

definition array_prototype_names :: "js_string list" where
  "array_prototype_names =
     map lit [''at'', ''concat'', ''copyWithin'', ''entries'', ''every'', ''fill'', ''filter'',
       ''find'', ''findIndex'', ''findLast'', ''findLastIndex'', ''flat'', ''flatMap'', ''forEach'',
       ''includes'', ''indexOf'', ''join'', ''keys'', ''lastIndexOf'', ''map'', ''pop'', ''push'',
       ''reduce'', ''reduceRight'', ''reverse'', ''shift'', ''slice'', ''some'', ''sort'', ''splice'',
       ''toReversed'', ''toSorted'', ''toSpliced'', ''unshift'', ''values'', ''with'']"

text \<open>The key of the array element \<open>n\<close>: its decimal numeral.\<close>

fun decimal :: "nat \<Rightarrow> js_string" where
  "decimal n =
     (if n < 10 then [of_nat (48 + n)] else decimal (n div 10) @ [of_nat (48 + n mod 10)])"

declare decimal.simps [simp del]

text \<open>
  What the prototype chain gives for a key that is not an own property. \<open>__proto__\<close> is
  the accessor of \<open>Object.prototype\<close>, and reads the prototype itself. A prototype array
  provides its elements and its \<open>length\<close> before the functions of \<open>Array.prototype\<close> and
  \<open>Object.prototype\<close>.
\<close>

definition inherited :: "backend \<Rightarrow> js_string \<Rightarrow> js_value" where
  "inherited b k =
     (case prototype b of
        None \<Rightarrow>
          if k = lit ''__proto__'' \<or> k \<in> set object_prototype_names then Builtin else Undefined
      | Some a \<Rightarrow>
          if k = lit ''__proto__'' then Array a
          else (case map_of (zip (map decimal [0..<length a]) a) k of
                  Some m \<Rightarrow> Object m
                | None \<Rightarrow>
                    if k = lit ''length'' then Number (length a)
                    else if k \<in> set array_prototype_names \<or> k \<in> set object_prototype_names
                    then Builtin else Undefined))"

text \<open>\<open>this.messages[k]\<close>: the own property, else what is inherited.\<close>

definition lookup :: "backend \<Rightarrow> js_string \<Rightarrow> js_value" where
  "lookup b k = (case map_of (messages b) k of Some ms \<Rightarrow> Array ms | None \<Rightarrow> inherited b k)"

text \<open>Every object is truthy; \<open>undefined\<close> and the number 0 are not.\<close>

fun truthy :: "js_value \<Rightarrow> bool" where
  "truthy Undefined = False"
| "truthy (Number n) = (n \<noteq> 0)"
| "truthy _ = True"

text \<open>
  \<open>this.messages[k] = []\<close>: through the setter of \<open>__proto__\<close> the new array becomes the
  prototype; under every other key it becomes the own property, whether or not a
  prototype has a property of that name (all of those are writable data properties).
\<close>

definition assign_empty :: "js_string \<Rightarrow> backend \<Rightarrow> backend" where
  "assign_empty k b =
     (if k = lit ''__proto__'' then b\<lparr>prototype := Some []\<rparr>
      else b\<lparr>messages := AList.update k [] (messages b)\<rparr>)"

text \<open>
  \<open>this.messages[k].push(m)\<close>: appends in place when the property read finds an array,
  the own one or, under \<open>__proto__\<close>, the prototype; what else a read can find has no
  \<open>push\<close>, and the call throws.
\<close>

definition push :: "js_string \<Rightarrow> Message \<Rightarrow> backend \<Rightarrow> js_error + backend" where
  "push k m b =
     (case map_of (messages b) k of
        Some ms \<Rightarrow> Inr (b\<lparr>messages := AList.update k (ms @ [m]) (messages b)\<rparr>)
      | None \<Rightarrow>
          (case inherited b k of
             Array a \<Rightarrow> Inr (b\<lparr>prototype := Some (a @ [m])\<rparr>)
           | _ \<Rightarrow> Inl TypeError))"

section \<open>The backend operations\<close>

definition createGroup :: "Group \<Rightarrow> backend \<Rightarrow> backend" where
  "createGroup g b = assign_empty (id_g g) (b\<lparr>groups := groups b @ [g]\<rparr>)"

definition near :: "number \<Rightarrow> number \<Rightarrow> number \<Rightarrow> Group \<Rightarrow> bool" where
  "near lat0 lng0 radiusKm g =
     (let dLat = js_sub (lat g) lat0; dLng = js_sub (lng g) lng0
      in js_le (js_mul (js_sqrt (js_add (js_mul dLat dLat) (js_mul dLng dLng))) (Fin 111))
           radiusKm)"

definition listGroupsNearby :: "number \<Rightarrow> number \<Rightarrow> number option \<Rightarrow> backend \<Rightarrow> Group list" where
  "listGroupsNearby lat0 lng0 radiusKm b =
     filter (near lat0 lng0 (case radiusKm of None \<Rightarrow> Fin 50 | Some r \<Rightarrow> r)) (groups b)"

text \<open>
  \<open>postMessage\<close> creates the collection when the read of the key is falsy, and pushes. A
  throw leaves the backend as it was: the push can only fail after a truthy read, which
  assigns nothing.
\<close>

definition postMessage :: "js_string \<Rightarrow> Message \<Rightarrow> backend \<Rightarrow> js_error + backend" where
  "postMessage groupId m b =
     push groupId m (if truthy (lookup b groupId) then b else assign_empty groupId b)"

text \<open>\<open>getMessages\<close> returns what the read finds when that is truthy, else a new empty array.\<close>

definition getMessages :: "js_string \<Rightarrow> backend \<Rightarrow> js_value" where
  "getMessages groupId b =
     (let v = lookup b groupId in if truthy v then v else Array [])"

text \<open>
  \<open>removeExpired\<close> reads the clock once (\<open>now\<close>), keeps the groups that expire later, and
  then visits every own key of \<open>messages\<close>, deleting the key when no kept group has that
  id. The prototype is not among the keys, and stays.
\<close>

definition sweep_key :: "Group list \<Rightarrow> js_string \<Rightarrow> (js_string \<times> Message list) list
    \<Rightarrow> (js_string \<times> Message list) list" where
  "sweep_key gs groupId ms =
     (case find (\<lambda>x. id_g x = groupId) gs of None \<Rightarrow> AList.delete groupId ms | Some g \<Rightarrow> ms)"

definition removeExpired :: "int \<Rightarrow> backend \<Rightarrow> backend" where
  "removeExpired now b =
     (let gs = filter (\<lambda>g. expiresAt g > now) (groups b)
      in b\<lparr>groups := gs,
           messages := fold (sweep_key gs) (map fst (messages b)) (messages b)\<rparr>)"

section \<open>The application\<close>

record location =
  latitude :: number
  longitude :: number

text \<open>
  \<open>Array.prototype.sort\<close> with a comparison function: a stable sort that puts \<open>x\<close>
  before \<open>y\<close> when the comparison of \<open>x\<close> with \<open>y\<close> is negative.
\<close>

fun insert_by :: "('a \<Rightarrow> 'a \<Rightarrow> int) \<Rightarrow> 'a \<Rightarrow> 'a list \<Rightarrow> 'a list" where
  "insert_by cmp x [] = [x]"
| "insert_by cmp x (y # ys) = (if cmp x y < 0 then x # y # ys else y # insert_by cmp x ys)"

definition sort_by :: "('a \<Rightarrow> 'a \<Rightarrow> int) \<Rightarrow> 'a list \<Rightarrow> 'a list" where
  "sort_by cmp xs = foldl (\<lambda>acc x. insert_by cmp x acc) [] xs"

text \<open>
  \<open>loadNearby\<close> is the list operation of the directory: sweep, filter by distance with
  the radius 50, sort by expiry. It returns the list it hands to the view.
\<close>

definition loadNearby :: "int \<Rightarrow> location \<Rightarrow> backend \<Rightarrow> backend \<times> Group list" where
  "loadNearby now loc b =
     (let b' = removeExpired now b;
          list = sort_by (\<lambda>a b. expiresAt a - expiresAt b)
                   (listGroupsNearby (latitude loc) (longitude loc) (Some (Fin 50)) b')
      in (b', list))"

text \<open>
  \<open>create\<close>: the form's \<open>name\<close>, \<open>anonAllowed\<close> and \<open>icebreaker\<close>, the resolved
  location \<open>loc\<close>, the identifier \<open>uuid()\<close> returned and the clock reading \<open>now\<close>.
\<close>

definition create :: "js_string \<Rightarrow> bool \<Rightarrow> js_string \<Rightarrow> location \<Rightarrow> js_string \<Rightarrow> int
    \<Rightarrow> backend \<Rightarrow> Group \<times> backend" where
  "create name0 anonAllowed icebreaker0 loc uuid now b =
     (let expiresAt0 = now + 24 * 60 * 60 * 1000;
          grp = \<lparr>id_g = uuid, name = or_else name0 (lit ''Untitled Spark''),
                   createdAt = now, expiresAt = expiresAt0,
                   lat = latitude loc, lng = longitude loc,
                   anonymousAllowed = anonAllowed, icebreaker = Some icebreaker0\<rparr>
      in (grp, createGroup grp b))"

text \<open>
  \<open>send\<close> in the chat view of the group \<open>grp\<close>: the switch \<open>anon\<close>, the handle, the text typed,
  the identifier \<open>uuid()\<close> returned and the clock reading. It returns silently on a blank
  text, raises the alert on an anonymous post where the group forbids it, and posts
  otherwise; when \<open>postMessage\<close> throws, the error leaves \<open>send\<close> with the backend as it
  was.
\<close>

datatype outcome = Ignored | Alert js_string | Posted Message | Threw js_error

definition send :: "Group \<Rightarrow> bool \<Rightarrow> js_string \<Rightarrow> js_string \<Rightarrow> js_string \<Rightarrow> int
    \<Rightarrow> backend \<Rightarrow> outcome \<times> backend" where
  "send grp anon nameHandle text0 uuid now b =
     (if trim text0 = [] then (Ignored, b)
      else if anon \<and> \<not> anonymousAllowed grp
      then (Alert (lit ''Anonymous posts are not allowed in this Spark.''), b)
      else let msg = \<lparr>id_m = uuid, text_m = trim text0, createdAt_m = now,
                       displayName = (if anon then lit ''Anonymous''
                                      else or_else nameHandle (lit ''Guest'')),
                       anonymous = anon\<rparr>
           in (case postMessage (id_g grp) msg b of
                 Inl e \<Rightarrow> (Threw e, b)
               | Inr b' \<Rightarrow> (Posted msg, b')))"

text \<open>
  What can happen to the backend while the application runs: a group is created, a
  message is sent from a chat view, the list is loaded, the 30 second timer fires.
\<close>

datatype event =
    Create js_string bool js_string location js_string int
  | Send Group bool js_string js_string js_string int
  | LoadNearby int location
  | Timer int

fun exec :: "event \<Rightarrow> backend \<Rightarrow> backend" where
  "exec (Create name0 anonAllowed icebreaker0 loc uuid now) b =
     snd (create name0 anonAllowed icebreaker0 loc uuid now b)"
| "exec (Send grp anon nameHandle text0 uuid now) b =
     snd (send grp anon nameHandle text0 uuid now b)"
| "exec (LoadNearby now loc) b = fst (loadNearby now loc b)"
| "exec (Timer now) b = removeExpired now b"

definition run :: "event list \<Rightarrow> backend \<Rightarrow> backend" where
  "run es b = fold exec es b"

text \<open>
  Every message the backend holds: collection after collection, and then the elements of
  a prototype array.
\<close>

definition stored :: "backend \<Rightarrow> Message list" where
  "stored b =
     concat (map snd (messages b)) @ (case prototype b of None \<Rightarrow> [] | Some a \<Rightarrow> a)"


section \<open>A small history\<close>

text \<open>
  One group created at a campus at time 1000, and one message sent to it at time 2000:
  the backend \<open>demo\<close> holds the group \<open>study_room\<close> and the message \<open>hello\<close>.
\<close>

definition campus :: location where
  "campus = \<lparr>latitude = Fin (29 / 2), longitude = Fin 121\<rparr>"

definition study_room :: Group where
  "study_room =
     fst (create (lit ''Study'') False (lit ''Two truths'') campus (lit ''g1'') 1000 init)"

definition hello :: Message where
  "hello = \<lparr>id_m = lit ''m1'', text_m = lit ''hello'', createdAt_m = 2000,
     displayName = lit ''ann'', anonymous = False\<rparr>"

definition demo :: backend where
  "demo = run [Create (lit ''Study'') False (lit ''Two truths'') campus (lit ''g1'') 1000,
               Send study_room False (lit ''ann'') (lit '' hello '') (lit ''m1'') 2000] init"

text \<open>
  A second history, in which \<open>uuid\<close> returns the same identifier twice: \<open>second_room\<close> is
  created at time 5000 under the id of \<open>study_room\<close>, and the message \<open>later\<close> is sent to it.
  And the backend \<open>orphaned\<close>, which is \<open>demo\<close> with a collection under an id of no group.
\<close>

definition second_room :: Group where
  "second_room =
     fst (create (lit ''Again'') True (lit ''Two truths'') campus (lit ''g1'') 5000 init)"

definition later :: Message where
  "later = \<lparr>id_m = lit ''m2'', text_m = lit ''later'', createdAt_m = 6000,
     displayName = lit ''bob'', anonymous = False\<rparr>"

definition twin :: backend where
  "twin = run [Create (lit ''Study'') False (lit ''Two truths'') campus (lit ''g1'') 1000,
               Create (lit ''Again'') True (lit ''Two truths'') campus (lit ''g1'') 5000,
               Send second_room False (lit ''bob'') (lit ''later'') (lit ''m2'') 6000] init"

definition orphaned :: backend where
  "orphaned = \<lparr>groups = [study_room],
     messages = [(lit ''g1'', [hello]), (lit ''zz'', [hello])], prototype = None\<rparr>"

text \<open>
  What \<open>uuid\<close> can return: at most seven of the digits of base 36, which
  \<open>Math.random().toString(36)\<close> writes after \<open>0.\<close>.
\<close>

definition base36 :: "16 word \<Rightarrow> bool" where
  "base36 c \<longleftrightarrow> (0x30 \<le> c \<and> c \<le> 0x39) \<or> (0x61 \<le> c \<and> c \<le> 0x7A)"

definition uuid_like :: "js_string \<Rightarrow> bool" where
  "uuid_like k \<longleftrightarrow> length k \<le> 7 \<and> list_all base36 k"

text \<open>The events whose new group gets an identifier that \<open>uuid\<close> can return.\<close>

fun uuid_event :: "event \<Rightarrow> bool" where
  "uuid_event (Create name0 anonAllowed icebreaker0 loc uuid now) = uuid_like uuid"
| "uuid_event _ = True"

text \<open>
  Two groups for the distance test, both due north of the origin \<open>(0, 0)\<close>: \<open>speck\<close> at
  \<open>2^-600\<close> degrees, whose square is below the smallest positive double, and \<open>rim\<close> at the
  double nearest to \<open>50/111\<close> degrees, which lies above \<open>50/111\<close>; \<open>edge_square\<close> is the
  double nearest to the square of that latitude.
\<close>

definition tiny :: real where
  "tiny = 1 / 2 ^ 600"

definition speck :: Group where
  "speck = study_room\<lparr>lat := Fin tiny, lng := Fin 0\<rparr>"

definition edge :: real where
  "edge = 8114593923190083 / 2 ^ 54"

definition edge_square :: real where
  "edge_square = 7310444975846922 / 2 ^ 55"

definition rim :: Group where
  "rim = study_room\<lparr>lat := Fin edge, lng := Fin 0\<rparr>"

section \<open>The sweep\<close>

lemma sweep_key_eq:
  "sweep_key gs k ms = (if k \<in> id_g ` set gs then ms else filter (\<lambda>p. fst p \<noteq> k) ms)"
proof (cases "find (\<lambda>x. id_g x = k) gs")
  case None
  then have "k \<notin> id_g ` set gs" by (auto simp: find_None_iff)
  with None show ?thesis
    by (auto simp: sweep_key_def AList.delete_eq case_prod_unfold intro!: filter_cong)
next
  case (Some g)
  then have "k \<in> id_g ` set gs" by (auto simp: find_Some_iff)
  with Some show ?thesis by (simp add: sweep_key_def)
qed

lemma fold_sweep_key:
  "fold (sweep_key gs) ks ms = filter (\<lambda>p. fst p \<in> set ks \<longrightarrow> fst p \<in> id_g ` set gs) ms"
proof (induction ks arbitrary: ms)
  case Nil
  show ?case by simp
next
  case (Cons k ks)
  have "fold (sweep_key gs) (k # ks) ms =
        filter (\<lambda>p. fst p \<in> set ks \<longrightarrow> fst p \<in> id_g ` set gs) (sweep_key gs k ms)"
    by (simp only: fold_simps Cons.IH)
  also have "\<dots> = filter (\<lambda>p. fst p \<in> set (k # ks) \<longrightarrow> fst p \<in> id_g ` set gs) ms"
    unfolding sweep_key_eq by (auto intro!: filter_cong)
  finally show ?case .
qed

lemma messages_removeExpired:
  "messages (removeExpired now b) =
     filter (\<lambda>p. fst p \<in> id_g ` set (filter (\<lambda>g. expiresAt g > now) (groups b))) (messages b)"
  by (auto simp: removeExpired_def Let_def fold_sweep_key intro!: filter_cong)

lemma groups_removeExpired:
  "groups (removeExpired now b) = filter (\<lambda>g. expiresAt g > now) (groups b)"
  by (simp add: removeExpired_def Let_def)

lemma prototype_removeExpired: "prototype (removeExpired now b) = prototype b"
  by (simp add: removeExpired_def Let_def)

lemma inherited_removeExpired: "inherited (removeExpired now b) k = inherited b k"
  by (simp add: inherited_def prototype_removeExpired)

lemma removeExpired_idem: "removeExpired now (removeExpired now b) = removeExpired now b"
proof -
  have p: "prototype (removeExpired now (removeExpired now b)) = prototype (removeExpired now b)"
    by (simp add: prototype_removeExpired)
  have g: "groups (removeExpired now (removeExpired now b)) = groups (removeExpired now b)"
    by (simp add: groups_removeExpired)
  have m: "messages (removeExpired now (removeExpired now b)) = messages (removeExpired now b)"
    unfolding messages_removeExpired [of now "removeExpired now b"]
    unfolding groups_removeExpired
    by (simp add: messages_removeExpired)
  from g m p show ?thesis by (simp add: backend.equality)
qed

lemma no_live_id:
  assumes "k \<notin> id_g ` set (filter (\<lambda>g. now < expiresAt g) (groups b))"
  shows "map_of (messages (removeExpired now b)) k = None"
proof -
  from assms have "k \<notin> fst ` set (messages (removeExpired now b))"
    by (auto simp: messages_removeExpired)
  then show ?thesis by (simp add: map_of_eq_None_iff)
qed

lemma getMessages_gone:
  "map_of (messages b) k = None \<Longrightarrow> inherited b k = Undefined \<Longrightarrow> getMessages k b = Array []"
  by (simp add: getMessages_def lookup_def)

section \<open>Reading, creating and pushing\<close>

lemma inherited_plain:
  "prototype b = None \<Longrightarrow>
     inherited b k =
       (if k = lit ''__proto__'' \<or> k \<in> set object_prototype_names then Builtin else Undefined)"
  by (simp add: inherited_def)

lemma inherited_proto_truthy: "truthy (inherited b (lit ''__proto__''))"
  by (simp add: inherited_def split: option.splits)

lemma postMessage_own:
  "map_of (messages b) k = Some ms \<Longrightarrow>
     postMessage k m b = Inr (b\<lparr>messages := AList.update k (ms @ [m]) (messages b)\<rparr>)"
  by (simp add: postMessage_def lookup_def push_def)

lemma postMessage_fresh:
  assumes "map_of (messages b) k = None" and "\<not> truthy (inherited b k)"
  shows "postMessage k m b = Inr (b\<lparr>messages := AList.update k [m] (messages b)\<rparr>)"
proof -
  from assms(2) inherited_proto_truthy [of b] have "k \<noteq> lit ''__proto__''" by auto
  with assms show ?thesis
    by (simp add: postMessage_def lookup_def push_def assign_empty_def update_conv')
qed


lemma postMessage_unchanged_groups:
  "postMessage k m b = Inr b' \<Longrightarrow> groups b' = groups b"
  by (auto simp: postMessage_def push_def assign_empty_def
      split: if_splits option.splits js_value.splits)

text \<open>
  On an id with no collection whose read is falsy, \<open>postMessage\<close> creates the collection
  with the one message, and a sweep deletes it again when no group that expires later has
  the id.
\<close>

lemma postMessage_orphan:
  assumes "map_of (messages b) k = None" and "\<not> truthy (inherited b k)"
    and "postMessage k m b = Inr b'"
  shows "getMessages k b' = Array [m]"
    and "k \<notin> id_g ` set (filter (\<lambda>g. now < expiresAt g) (groups b)) \<Longrightarrow>
           map_of (messages (removeExpired now b')) k = None"
proof -
  from postMessage_fresh [OF assms(1,2)] assms(3)
  have b': "b' = b\<lparr>messages := AList.update k [m] (messages b)\<rparr>" by simp
  show "getMessages k b' = Array [m]"
    by (simp add: b' getMessages_def lookup_def update_conv')
  assume "k \<notin> id_g ` set (filter (\<lambda>g. now < expiresAt g) (groups b))"
  then have "k \<notin> id_g ` set (filter (\<lambda>g. now < expiresAt g) (groups b'))" by (simp add: b')
  then show "map_of (messages (removeExpired now b')) k = None" by (rule no_live_id)
qed

text \<open>No identifier that \<open>uuid\<close> can return names a property that a plain object inherits.\<close>

lemma uuid_not_inherited:
  assumes "uuid_like k" and "prototype b = None"
  shows "inherited b k = Undefined"
proof -
  have "\<not> base36 0x5F" and u: "\<forall>c\<in>{0x44, 0x47, 0x49, 0x4C, 0x4F, 0x50, 0x53 :: 16 word}. \<not> base36 c"
    by (simp_all add: base36_def)
  from assms(1) have len: "length k \<le> 7" and all: "\<forall>c\<in>set k. base36 c"
    by (simp_all add: uuid_like_def list_all_iff)
  from all \<open>\<not> base36 0x5F\<close> have "k \<noteq> lit ''__proto__''"
    by (auto simp: lit_def)
  moreover from all len u have "k \<notin> set object_prototype_names"
    by (auto simp: object_prototype_names_def lit_def)
  ultimately show ?thesis using assms(2) by (simp add: inherited_plain)
qed

section \<open>Sorting and trimming\<close>

lemma set_insert_by: "set (insert_by cmp x ys) = insert x (set ys)"
  by (induction ys) auto

lemma set_foldl_insert_by:
  "set (foldl (\<lambda>acc x. insert_by cmp x acc) acc xs) = set acc \<union> set xs"
  by (induction xs arbitrary: acc) (auto simp: set_insert_by)

lemma set_sort_by: "set (sort_by cmp xs) = set xs"
  by (simp add: sort_by_def set_foldl_insert_by)

lemma sorted_insert_by:
  "sorted (map f ys) \<Longrightarrow> sorted (map f (insert_by (\<lambda>a b. f a - f b) x ys))"
  for f :: "'a \<Rightarrow> int"
  by (induction ys) (auto simp: set_insert_by)

lemma sorted_foldl_insert_by:
  "sorted (map f acc) \<Longrightarrow>
   sorted (map f (foldl (\<lambda>acc x. insert_by (\<lambda>a b. f a - f b) x acc) acc xs))"
  for f :: "'a \<Rightarrow> int"
  by (induction xs arbitrary: acc) (auto simp: sorted_insert_by)

lemma sorted_sort_by: "sorted (map f (sort_by (\<lambda>a b. f a - f b) xs))"
  for f :: "'a \<Rightarrow> int"
  by (simp add: sort_by_def sorted_foldl_insert_by)

lemma loadNearby_live: "g \<in> set (snd (loadNearby now loc b)) \<Longrightarrow> now < expiresAt g"
  by (auto simp: loadNearby_def Let_def set_sort_by listGroupsNearby_def groups_removeExpired)

lemma trim_Nil_iff: "trim t = [] \<longleftrightarrow> (\<forall>c\<in>set t. white_space c)"
proof -
  have A: "trim t = [] \<longleftrightarrow> (\<forall>c\<in>set (dropWhile white_space t). white_space c)"
    unfolding trim_def rev_is_Nil_conv dropWhile_eq_Nil_conv set_rev ..
  show ?thesis
  proof
    assume "trim t = []"
    with A have all: "\<forall>c\<in>set (dropWhile white_space t). white_space c" by simp
    have "dropWhile white_space t = []"
    proof (rule ccontr)
      assume ne: "dropWhile white_space t \<noteq> []"
      then have "\<not> white_space (hd (dropWhile white_space t))"
        by (rule hd_dropWhile)
      moreover have "hd (dropWhile white_space t) \<in> set (dropWhile white_space t)"
        using ne by (rule hd_in_set)
      ultimately show False using all by blast
    qed
    then show "\<forall>c\<in>set t. white_space c"
      unfolding dropWhile_eq_Nil_conv .
  next
    assume "\<forall>c\<in>set t. white_space c"
    then have "dropWhile white_space t = []"
      unfolding dropWhile_eq_Nil_conv .
    then show "trim t = []"
      by (simp only: trim_def rev.simps dropWhile.simps)
  qed
qed

lemma dropWhile_rev_self: "xs \<noteq> [] \<Longrightarrow> \<not> P (last xs) \<Longrightarrow> dropWhile P (rev xs) = rev xs"
  by (cases xs rule: rev_cases) auto

lemma last_dropWhile: "dropWhile P xs \<noteq> [] \<Longrightarrow> last (dropWhile P xs) = last xs"
  by (induction xs) (auto split: if_splits)

lemma trim_idem: "trim (trim t) = trim t"
proof -
  define s where "s = dropWhile white_space t"
  define v where "v = dropWhile white_space (rev s)"
  have t: "trim t = rev v" by (simp add: trim_def s_def v_def)
  have "dropWhile white_space (rev v) = rev v"
  proof (cases "v = []")
    case True
    then show ?thesis by simp
  next
    case False
    then have "last v = last (rev s)" unfolding v_def by (rule last_dropWhile)
    moreover have s: "s \<noteq> []" using False by (auto simp: v_def)
    ultimately have "last v = hd s" by (simp add: last_rev)
    moreover have "\<not> white_space (hd s)" using s unfolding s_def by (rule hd_dropWhile)
    ultimately show ?thesis using False by (simp add: dropWhile_rev_self)
  qed
  then have "trim (rev v) = rev (dropWhile white_space v)" by (simp add: trim_def)
  also have "dropWhile white_space v = v" by (simp add: v_def)
  finally show ?thesis by (simp add: t)
qed

lemma not_blank_iff: "trim t \<noteq> [] \<longleftrightarrow> (\<exists>c\<in>set t. \<not> white_space c)"
  by (simp add: trim_Nil_iff)

section \<open>Rounding to a double\<close>

text \<open>
  \<open>floor_log2\<close> is the binary exponent, so \<open>quantum\<close> is the spacing of the doubles at its
  argument; \<open>to_double\<close> returns zero below half of the smallest positive double, leaves
  a double as it is, and is within the relative error \<open>2^-53\<close> in the normal range.
\<close>

lemma powi_less_cancel: "(2::real) powi a < 2 powi b \<Longrightarrow> a < b"
  by (metis not_less power_int_increasing one_le_numeral)

lemma powi_le_cancel:
  assumes "(2::real) powi a \<le> 2 powi b"
  shows "a \<le> b"
proof (rule ccontr)
  assume "\<not> a \<le> b"
  then have "(2::real) powi b < 2 powi a" by (intro power_int_strict_increasing) simp_all
  with assms show False by simp
qed

lemma floor_log2_bounds:
  assumes "0 < x"
  shows "2 powi floor_log2 x \<le> x" and "x < 2 powi (floor_log2 x + 1)"
proof -
  have "2 powi floor_log2 x \<le> x \<and> x < 2 powi (floor_log2 x + 1)"
  proof (cases "1 \<le> x")
    case True
    define a where "a = \<lfloor>x\<rfloor>"
    have a: "0 < a" using True by (simp add: a_def)
    define n where "n = nat (bitlen a - 1)"
    have bl: "bitlen a = int n + 1"
      using a bitlen_ge_iff_power [of 1 a] by (simp add: n_def)
    have e: "floor_log2 x = int n" using True by (simp add: floor_log2_def a_def [symmetric] bl)
    from bitlen_bounds [OF a] have lo: "2 ^ n \<le> a" and hi: "a < 2 ^ Suc n"
      by (simp_all add: n_def [symmetric] bl nat_add_distrib)
    have "real_of_int (2 ^ n) \<le> real_of_int a" using lo by (simp only: of_int_le_iff)
    also have "\<dots> \<le> x" by (simp add: a_def)
    finally have 1: "2 ^ n \<le> x" by simp
    have "a + 1 \<le> 2 ^ Suc n" using hi by simp
    then have "real_of_int (a + 1) \<le> real_of_int (2 ^ Suc n)" by (simp only: of_int_le_iff)
    moreover have "x < real_of_int (a + 1)" by (simp add: a_def)
    ultimately have 2: "x < 2 ^ Suc n" by simp
    have "(2::real) powi (int n + 1) = 2 ^ Suc n"
      by (metis of_nat_Suc power_int_of_nat add.commute)
    with 1 2 show ?thesis by (simp add: e)
  next
    case False
    define y where "y = 1 / x"
    have y: "1 < y" using False assms by (simp add: y_def)
    define m where "m = \<lceil>y\<rceil> - 1"
    have m: "0 < m" using y by (simp add: m_def)
    define n where "n = nat (bitlen m - 1)"
    have bl: "bitlen m = int n + 1"
      using m bitlen_ge_iff_power [of 1 m] by (simp add: n_def)
    have e: "floor_log2 x = - (int n + 1)"
      using False by (simp add: floor_log2_def y_def [symmetric] m_def [symmetric] bl)
    from bitlen_bounds [OF m] have lo: "2 ^ n \<le> m" and hi: "m < 2 ^ Suc n"
      by (simp_all add: n_def [symmetric] bl nat_add_distrib)
    have "m + 1 \<le> 2 ^ Suc n" using hi by simp
    then have "real_of_int (m + 1) \<le> real_of_int (2 ^ Suc n)" by (simp only: of_int_le_iff)
    moreover have "y \<le> real_of_int (m + 1)" by (simp add: m_def)
    ultimately have "y \<le> 2 ^ Suc n" by simp
    then have 1: "1 / 2 ^ Suc n \<le> x"
      using assms by (simp add: y_def field_simps)
    have "real_of_int (2 ^ n) \<le> real_of_int m" using lo by (simp only: of_int_le_iff)
    then have "(2::real) ^ n \<le> real_of_int m" by simp
    moreover have "real_of_int m < y" unfolding m_def by linarith
    ultimately have "2 ^ n < y" by linarith
    then have 2: "x < 1 / 2 ^ n"
      using assms by (simp add: y_def field_simps)
    have p1: "(2::real) powi (- (int n + 1)) = 1 / 2 ^ Suc n"
      by (metis of_nat_Suc power_int_of_nat add.commute power_int_minus_divide)
    have p2: "(2::real) powi (- (int n + 1) + 1) = 1 / 2 ^ n"
      by (simp add: power_int_minus_divide)
    from 1 2 show ?thesis by (simp only: e p1 p2)
  qed
  then show "2 powi floor_log2 x \<le> x" and "x < 2 powi (floor_log2 x + 1)" by simp_all
qed

lemma floor_log2_unique:
  assumes "2 powi e \<le> x" and "x < 2 powi (e + 1)"
  shows "floor_log2 x = e"
proof -
  have "(0::real) < 2 powi e" by simp
  with assms have x: "0 < x" by linarith
  note b = floor_log2_bounds [OF x]
  have "(2::real) powi e < 2 powi (floor_log2 x + 1)" using assms(1) b(2) by linarith
  then have 1: "e < floor_log2 x + 1" by (rule powi_less_cancel)
  have "(2::real) powi floor_log2 x < 2 powi (e + 1)" using assms(2) b(1) by linarith
  then have 2: "floor_log2 x < e + 1" by (rule powi_less_cancel)
  from 1 2 show ?thesis by simp
qed

lemma ties_even_small: "\<bar>y\<bar> < 1 / 2 \<Longrightarrow> ties_even y = 0"
proof (cases "0 \<le> y")
  case True
  assume "\<bar>y\<bar> < 1 / 2"
  with True have "\<lfloor>y\<rfloor> = 0" by (intro floor_unique) auto
  with True \<open>\<bar>y\<bar> < 1 / 2\<close> show ?thesis by (simp add: ties_even_def)
next
  case False
  assume "\<bar>y\<bar> < 1 / 2"
  with False have "\<lfloor>y\<rfloor> = - 1" by (intro floor_unique) auto
  with False \<open>\<bar>y\<bar> < 1 / 2\<close> show ?thesis by (simp add: ties_even_def)
qed

lemma ties_even_near: "\<bar>y - of_int n\<bar> < 1 / 2 \<Longrightarrow> ties_even y = n"
proof -
  assume a: "\<bar>y - of_int n\<bar> < 1 / 2"
  show ?thesis
  proof (cases "of_int n \<le> y")
    case True
    with a have "\<lfloor>y\<rfloor> = n" by (intro floor_unique) auto
    with True a show ?thesis by (simp add: ties_even_def)
  next
    case False
    with a have "\<lfloor>y\<rfloor> = n - 1" by (intro floor_unique) auto
    with False a show ?thesis by (simp add: ties_even_def)
  qed
qed

lemma ties_even_err: "\<bar>real_of_int (ties_even y) - y\<bar> \<le> 1 / 2"
proof -
  have "real_of_int \<lfloor>y\<rfloor> \<le> y" and "y < real_of_int \<lfloor>y\<rfloor> + 1" by linarith+
  then show ?thesis by (auto simp: ties_even_def Let_def)
qed

lemma quantum_subnormal:
  assumes "x \<noteq> 0" and "\<bar>x\<bar> < 2 powi (- 1021)"
  shows "quantum x = 2 powi (- 1074)"
proof -
  have x: "0 < \<bar>x\<bar>" using assms(1) by simp
  have "2 powi floor_log2 \<bar>x\<bar> < (2::real) powi (- 1021)"
    using floor_log2_bounds(1) [OF x] assms(2) by linarith
  then have "floor_log2 \<bar>x\<bar> < - 1021" by (rule powi_less_cancel)
  then have "max (floor_log2 \<bar>x\<bar>) (- 1022) = - 1022" by simp
  then show ?thesis by (simp add: quantum_def)
qed

lemma quantum_normal:
  assumes "2 powi e \<le> \<bar>x\<bar>" and "\<bar>x\<bar> < 2 powi (e + 1)" and "- 1022 \<le> e"
  shows "quantum x = 2 powi (e - 52)"
  using floor_log2_unique [OF assms(1,2)] assms(3) by (simp add: quantum_def)

lemma to_double_zero: "to_double 0 = Fin 0"
  by (simp add: to_double_def)

lemma to_double_underflow:
  assumes "\<bar>x\<bar> < 2 powi (- 1075)"
  shows "to_double x = Fin 0"
proof (cases "x = 0")
  case True
  then show ?thesis by (simp add: to_double_def)
next
  case False
  have "(2::real) powi (- 1075) \<le> 2 powi (- 1021)"
    by (rule power_int_increasing) simp_all
  with assms have "\<bar>x\<bar> < 2 powi (- 1021)" by linarith
  with False have q: "quantum x = 2 powi (- 1074)" by (rule quantum_subnormal)
  have "(2::real) powi (- 1075) = 2 powi (- 1074) / 2"
    by (simp add: power_int_minus_divide)
  with assms have "\<bar>x\<bar> < 2 powi (- 1074) / 2" by simp
  then have "\<bar>x / 2 powi (- 1074)\<bar> < 1 / 2"
    by (simp add: field_simps power_int_minus_divide)
  then have "ties_even (x / 2 powi (- 1074)) = 0" by (rule ties_even_small)
  with False show ?thesis by (simp add: to_double_def q Let_def)
qed

lemma to_double_normal:
  assumes "2 powi e \<le> \<bar>x\<bar>" and "\<bar>x\<bar> < 2 powi (e + 1)" and "- 1022 \<le> e"
    and "\<bar>x / 2 powi (e - 52) - of_int n\<bar> < 1 / 2"
    and "\<bar>real_of_int n * 2 powi (e - 52)\<bar> < 2 ^ 1024"
  shows "to_double x = Fin (of_int n * 2 powi (e - 52))"
proof -
  have "(0::real) < 2 powi e" by simp
  with assms(1) have "0 < \<bar>x\<bar>" by linarith
  then have "x \<noteq> 0" by simp
  moreover note quantum_normal [OF assms(1-3)] ties_even_near [OF assms(4)]
  moreover from assms(5) have "\<not> 2 ^ 1024 \<le> real_of_int n * 2 powi (e - 52)"
    and "\<not> real_of_int n * 2 powi (e - 52) \<le> - (2 ^ 1024)" by linarith+
  ultimately show ?thesis by (simp add: to_double_def Let_def)
qed

text \<open>A double, \<open>m * 2^e\<close> with \<open>|m| < 2^53\<close> and \<open>-1074 <= e <= 971\<close>, is its own rounding.\<close>

lemma to_double_exact:
  assumes "\<bar>m\<bar> < 2 ^ 53" and "- 1074 \<le> e" and "e \<le> 971"
  shows "to_double (real_of_int m * 2 powi e) = Fin (real_of_int m * 2 powi e)"
proof (cases "m = 0")
  case True
  then show ?thesis by (simp add: to_double_def)
next
  case False
  define x where "x = real_of_int m * 2 powi e"
  have x0: "x \<noteq> 0" using False by (simp add: x_def)
  then have pos: "0 < \<bar>x\<bar>" by simp
  have "real_of_int \<bar>m\<bar> < real_of_int (2 ^ 53)" using assms(1) by (simp only: of_int_less_iff)
  then have m: "\<bar>real_of_int m\<bar> < 2 ^ 53" by simp
  have ax: "\<bar>x\<bar> = \<bar>real_of_int m\<bar> * 2 powi e" by (simp add: x_def abs_mult)
  have "\<bar>x\<bar> < 2 ^ 53 * 2 powi e" unfolding ax using m by (intro mult_strict_right_mono) simp_all
  also have "\<dots> = 2 powi (53 + e)" by (simp add: power_int_add)
  finally have hi: "\<bar>x\<bar> < 2 powi (53 + e)" .
  with floor_log2_bounds(1) [OF pos] have "(2::real) powi floor_log2 \<bar>x\<bar> < 2 powi (53 + e)"
    by linarith
  then have "floor_log2 \<bar>x\<bar> < 53 + e" by (rule powi_less_cancel)
  define qe where "qe = max (floor_log2 \<bar>x\<bar>) (- 1022) - 52"
  have qe: "qe \<le> e" using \<open>floor_log2 \<bar>x\<bar> < 53 + e\<close> assms(2) by (simp add: qe_def)
  have q: "quantum x = 2 powi qe" by (simp add: quantum_def qe_def)
  define j where "j = nat (e - qe)"
  have "(2::real) powi e = 2 powi (int j + qe)" using qe by (simp add: j_def)
  also have "\<dots> = 2 ^ j * 2 powi qe" by (simp add: power_int_add)
  finally have split: "(2::real) powi e = 2 ^ j * 2 powi qe" .
  have "x / quantum x = x / 2 powi qe" by (simp only: q)
  also have "\<dots> = real_of_int (m * 2 ^ j)" by (simp add: x_def split)
  finally have xq: "x / quantum x = real_of_int (m * 2 ^ j)" .
  have "ties_even (real_of_int (m * 2 ^ j)) = m * 2 ^ j"
    by (rule ties_even_near) simp
  then have "real_of_int (ties_even (x / quantum x)) * quantum x
      = real_of_int (m * 2 ^ j) * 2 powi qe"
    unfolding xq by (simp only: q)
  also have "\<dots> = x" by (simp add: x_def split)
  finally have y: "real_of_int (ties_even (x / quantum x)) * quantum x = x" .
  have "(2::real) powi (53 + e) \<le> 2 powi 1024"
    using assms(3) by (intro power_int_increasing) simp_all
  with hi have "\<bar>x\<bar> < 2 ^ 1024" by simp
  then have "\<not> 2 ^ 1024 \<le> x" "\<not> x \<le> - (2 ^ 1024)" by linarith+
  with x0 y have "to_double x = Fin x" by (simp add: to_double_def Let_def)
  then show ?thesis by (simp only: x_def)
qed

text \<open>In the normal range the rounding changes a value by the factor \<open>1 + d\<close>, \<open>|d| <= 2^-53\<close>.\<close>

lemma to_double_rel:
  assumes "x = 0 \<or> 2 powi (- 1022) \<le> \<bar>x\<bar>" and "\<bar>x\<bar> \<le> 2 ^ 1023"
  shows "\<exists>d. \<bar>d\<bar> \<le> 1 / 2 ^ 53 \<and> to_double x = Fin (x * (1 + d))"
proof (cases "x = 0")
  case True
  then have "\<bar>0::real\<bar> \<le> 1 / 2 ^ 53 \<and> to_double x = Fin (x * (1 + 0))"
    by (simp add: to_double_def)
  then show ?thesis by blast
next
  case False
  then have x: "0 < \<bar>x\<bar>" and lo: "2 powi (- 1022) \<le> \<bar>x\<bar>" using assms(1) by auto
  define e where "e = floor_log2 \<bar>x\<bar>"
  note b = floor_log2_bounds [OF x, folded e_def]
  have "(2::real) powi (- 1022) < 2 powi (e + 1)" using lo b(2) by linarith
  then have "- 1022 < e + 1" by (rule powi_less_cancel)
  then have e_lo: "- 1022 \<le> e" by simp
  have "(2::real) powi e \<le> 2 powi 1023" using b(1) assms(2) by simp
  then have e_hi: "e \<le> 1023" by (rule powi_le_cancel)
  define q :: real where "q = 2 powi (e - 52)"
  have q: "quantum x = q" "0 < q"
    using e_lo by (simp_all add: quantum_def e_def [symmetric] q_def)
  define n where "n = ties_even (x / q)"
  define y where "y = real_of_int n * q"
  have "\<bar>real_of_int n - x / q\<bar> \<le> 1 / 2" unfolding n_def by (rule ties_even_err)
  then have "\<bar>real_of_int n - x / q\<bar> * q \<le> 1 / 2 * q"
    using q(2) by (intro mult_right_mono) simp_all
  moreover have "\<bar>real_of_int n - x / q\<bar> * q = \<bar>y - x\<bar>"
  proof -
    have "\<bar>real_of_int n - x / q\<bar> * q = \<bar>(real_of_int n - x / q) * q\<bar>"
      using q(2) by (simp add: abs_mult)
    also have "(real_of_int n - x / q) * q = y - x"
      using q(2) by (simp add: y_def left_diff_distrib)
    finally show ?thesis .
  qed
  ultimately have err: "\<bar>y - x\<bar> \<le> q / 2" by simp
  have qe: "q = 2 powi e / 2 ^ 52"
    by (simp add: q_def power_int_diff)
  have q_rel: "q / 2 \<le> \<bar>x\<bar> / 2 ^ 53"
    using b(1) by (simp add: qe field_simps)
  have "(2::real) powi e \<le> 2 powi 1023" using e_hi by (intro power_int_increasing) simp_all
  then have "q / 2 \<le> 2 ^ 970" by (simp add: qe field_simps)
  with err assms(2) have "\<bar>y\<bar> \<le> 2 ^ 1023 + 2 ^ 970" by linarith
  then have fin: "\<not> 2 ^ 1024 \<le> y" "\<not> y \<le> - (2 ^ 1024)" by simp_all
  have td: "to_double x = Fin y"
    using False fin by (simp add: to_double_def q(1) Let_def n_def [symmetric] y_def [symmetric])
  define d where "d = (y - x) / x"
  have "\<bar>d\<bar> = \<bar>y - x\<bar> / \<bar>x\<bar>" by (simp add: d_def)
  also have "\<dots> \<le> (\<bar>x\<bar> / 2 ^ 53) / \<bar>x\<bar>"
    using err q_rel x by (intro divide_right_mono) simp_all
  also have "\<dots> = 1 / 2 ^ 53" using x by simp
  finally have "\<bar>d\<bar> \<le> 1 / 2 ^ 53" .
  moreover have "y = x * (1 + d)" using False by (simp add: d_def field_simps)
  ultimately show ?thesis using td by blast
qed

lemma round_step:
  assumes "x = 0 \<or> lo \<le> \<bar>x\<bar>" and "\<bar>x\<bar> \<le> hi"
    and "2 powi (- 1022) \<le> lo" and "hi \<le> 2 ^ 1023"
  shows "\<exists>y. to_double x = Fin y \<and> (y = 0 \<or> lo / 2 \<le> \<bar>y\<bar>) \<and> \<bar>y\<bar> \<le> 2 * hi \<and>
           \<bar>x\<bar> * (1 - 1 / 2 ^ 53) \<le> \<bar>y\<bar> \<and> (0 \<le> x \<longrightarrow> 0 \<le> y)"
proof -
  from assms have "x = 0 \<or> 2 powi (- 1022) \<le> \<bar>x\<bar>" and "\<bar>x\<bar> \<le> 2 ^ 1023" by auto
  from to_double_rel [OF this] obtain d
    where d: "\<bar>d\<bar> \<le> 1 / 2 ^ 53" and td: "to_double x = Fin (x * (1 + d))" by blast
  define y where "y = x * (1 + d)"
  have small: "(1::real) / 2 ^ 53 \<le> 1 / 2" by simp
  from d small have f: "1 - 1 / 2 ^ 53 \<le> 1 + d" "1 + d \<le> 2" "1 / 2 \<le> 1 + d" "0 \<le> 1 + d"
    by (simp_all add: abs_le_iff)
  have ay: "\<bar>y\<bar> = \<bar>x\<bar> * (1 + d)" using f(4) by (simp add: y_def abs_mult)
  have 1: "\<bar>x\<bar> * (1 - 1 / 2 ^ 53) \<le> \<bar>y\<bar>"
    unfolding ay using f(1) by (intro mult_left_mono) simp_all
  have "\<bar>x\<bar> * (1 + d) \<le> hi * 2"
    using f(2) f(4) assms(2) by (intro mult_mono) simp_all
  then have 2: "\<bar>y\<bar> \<le> 2 * hi" by (simp add: ay)
  have 3: "y = 0 \<or> lo / 2 \<le> \<bar>y\<bar>"
  proof (cases "x = 0")
    case True
    then show ?thesis by (simp add: y_def)
  next
    case False
    with assms(1) have "lo \<le> \<bar>x\<bar>" by simp
    moreover have "(0::real) \<le> 2 powi (- 1022)" by simp
    with assms(3) have "0 \<le> lo" by linarith
    ultimately have "lo * (1 / 2) \<le> \<bar>x\<bar> * (1 + d)"
      using f(3) by (intro mult_mono) simp_all
    then show ?thesis by (simp add: ay)
  qed
  have 4: "0 \<le> x \<longrightarrow> 0 \<le> y" using f(4) by (simp add: y_def)
  from td 1 2 3 4 show ?thesis unfolding y_def by blast
qed

lemma square_step:
  fixes u U :: real
  assumes "U = 0 \<or> lo \<le> \<bar>U\<bar>" and "\<bar>U\<bar> \<le> hi" and "\<bar>u\<bar> * k \<le> \<bar>U\<bar>" and "0 \<le> k" and "0 \<le> lo"
  shows "U * U = 0 \<or> lo * lo \<le> \<bar>U * U\<bar>" and "\<bar>U * U\<bar> \<le> hi * hi"
    and "u * u * (k * k) \<le> U * U" and "0 \<le> U * U"
proof -
  have sq: "U * U = \<bar>U\<bar> * \<bar>U\<bar>" by simp
  show "U * U = 0 \<or> lo * lo \<le> \<bar>U * U\<bar>"
  proof (cases "U = 0")
    case True
    then show ?thesis by simp
  next
    case False
    with assms(1) have "lo \<le> \<bar>U\<bar>" by simp
    then have "lo * lo \<le> \<bar>U\<bar> * \<bar>U\<bar>" using assms(5) by (intro mult_mono) simp_all
    then show ?thesis by (simp add: abs_mult)
  qed
  have "\<bar>U\<bar> * \<bar>U\<bar> \<le> hi * hi" using assms(2) by (intro mult_mono) simp_all
  then show "\<bar>U * U\<bar> \<le> hi * hi" by (simp add: abs_mult)
  have "(\<bar>u\<bar> * k) * (\<bar>u\<bar> * k) \<le> \<bar>U\<bar> * \<bar>U\<bar>"
    using assms(3,4) by (intro mult_mono) simp_all
  moreover have "(\<bar>u\<bar> * k) * (\<bar>u\<bar> * k) = u * u * (k * k)"
    by (simp add: algebra_simps)
  ultimately show "u * u * (k * k) \<le> U * U" by (simp only: sq)
  show "0 \<le> U * U" by simp
qed

subsection \<open>The distance test\<close>

text \<open>
  The test follows the exact distance through its seven roundings: each keeps the value
  above the factor \<open>1 - 2^-53\<close> of the exact one, as long as nothing underflows or
  overflows.
\<close>

lemma js_sub_zero: "js_sub (Fin x) (Fin 0) = to_double x"
  by (simp add: js_sub_def)

lemma near_origin_same:
  assumes "lat g = Fin x" and "lng g = Fin y" and "js_le (Fin 0) r"
  shows "near (Fin x) (Fin y) r g"
  using assms by (simp add: near_def js_sub_def to_double_def)

lemma near_excludes:
  assumes g: "lat g = Fin a1" "lng g = Fin b1"
    and u: "a1 - a0 = 0 \<or> 1 / 2 ^ 500 \<le> \<bar>a1 - a0\<bar>" "\<bar>a1 - a0\<bar> \<le> 2 ^ 500"
    and v: "b1 - b0 = 0 \<or> 1 / 2 ^ 500 \<le> \<bar>b1 - b0\<bar>" "\<bar>b1 - b0\<bar> \<le> 2 ^ 500"
    and far: "r < sqrt ((a1 - a0)\<^sup>2 + (b1 - b0)\<^sup>2) * 111 * (1 - 1 / 2 ^ 50)"
  shows "\<not> near (Fin a0) (Fin b0) (Fin r) g"
proof -
  define k :: real where "k = 1 - 1 / 2 ^ 53"
  have k: "0 \<le> k" "k \<le> 1" by (simp_all add: k_def)
  define d where "d = sqrt ((a1 - a0)\<^sup>2 + (b1 - b0)\<^sup>2)"
  have d: "0 \<le> d" "d * d = (a1 - a0) * (a1 - a0) + (b1 - b0) * (b1 - b0)"
    by (simp_all add: d_def power2_eq_square [symmetric])
  \<comment> \<open>the two differences\<close>
  from round_step [OF u] obtain U where U: "to_double (a1 - a0) = Fin U"
    "U = 0 \<or> 1 / 2 ^ 500 / 2 \<le> \<bar>U\<bar>" "\<bar>U\<bar> \<le> 2 * 2 ^ 500" "\<bar>a1 - a0\<bar> * k \<le> \<bar>U\<bar>"
    unfolding k_def by (auto simp: power_int_minus_divide)
  from round_step [OF v] obtain V where V: "to_double (b1 - b0) = Fin V"
    "V = 0 \<or> 1 / 2 ^ 500 / 2 \<le> \<bar>V\<bar>" "\<bar>V\<bar> \<le> 2 * 2 ^ 500" "\<bar>b1 - b0\<bar> * k \<le> \<bar>V\<bar>"
    unfolding k_def by (auto simp: power_int_minus_divide)
  \<comment> \<open>their squares\<close>
  note su = square_step [OF U(2,3,4) k(1)]
  note sv = square_step [OF V(2,3,4) k(1)]
  have "U * U = 0 \<or> 1 / 2 ^ 1002 \<le> \<bar>U * U\<bar>" "\<bar>U * U\<bar> \<le> 2 ^ 1002"
    using su(1,2) by simp_all
  from round_step [OF this] su(4) obtain P where P: "to_double (U * U) = Fin P"
    "P = 0 \<or> 1 / 2 ^ 1002 / 2 \<le> \<bar>P\<bar>" "\<bar>P\<bar> \<le> 2 * 2 ^ 1002" "\<bar>U * U\<bar> * k \<le> \<bar>P\<bar>" "0 \<le> P"
    unfolding k_def by (auto simp: power_int_minus_divide)
  have "V * V = 0 \<or> 1 / 2 ^ 1002 \<le> \<bar>V * V\<bar>" "\<bar>V * V\<bar> \<le> 2 ^ 1002"
    using sv(1,2) by simp_all
  from round_step [OF this] sv(4) obtain Q where Q: "to_double (V * V) = Fin Q"
    "Q = 0 \<or> 1 / 2 ^ 1002 / 2 \<le> \<bar>Q\<bar>" "\<bar>Q\<bar> \<le> 2 * 2 ^ 1002" "\<bar>V * V\<bar> * k \<le> \<bar>Q\<bar>" "0 \<le> Q"
    unfolding k_def by (auto simp: power_int_minus_divide)
  have "(a1 - a0) * (a1 - a0) * (k * k) * k \<le> U * U * k"
    using su(3) k(1) by (intro mult_right_mono) simp_all
  with P(4,5) su(4) have Pl: "(a1 - a0) * (a1 - a0) * (k * k * k) \<le> P"
    by (simp add: mult.assoc)
  have "(b1 - b0) * (b1 - b0) * (k * k) * k \<le> V * V * k"
    using sv(3) k(1) by (intro mult_right_mono) simp_all
  with Q(4,5) sv(4) have Ql: "(b1 - b0) * (b1 - b0) * (k * k * k) \<le> Q"
    by (simp add: mult.assoc)
  \<comment> \<open>the sum\<close>
  have s0: "P + Q = 0 \<or> 1 / 2 ^ 1003 \<le> \<bar>P + Q\<bar>" "\<bar>P + Q\<bar> \<le> 2 ^ 1004" "0 \<le> P + Q"
    using P(2,3,5) Q(2,3,5) by auto
  from round_step [OF s0(1,2)] s0(3) obtain S where S: "to_double (P + Q) = Fin S"
    "S = 0 \<or> 1 / 2 ^ 1003 / 2 \<le> \<bar>S\<bar>" "\<bar>S\<bar> \<le> 2 * 2 ^ 1004" "\<bar>P + Q\<bar> * k \<le> \<bar>S\<bar>" "0 \<le> S"
    unfolding k_def by (auto simp: power_int_minus_divide)
  have "d * d * (k * k * k) \<le> P + Q"
    using Pl Ql by (simp add: d(2) distrib_right)
  then have "d * d * (k * k * k) * k \<le> (P + Q) * k"
    using k(1) by (intro mult_right_mono) simp_all
  with S(4,5) s0(3) have Sl: "(d * (k * k)) * (d * (k * k)) \<le> S"
    by (simp add: mult_ac)
  \<comment> \<open>the square root\<close>
  have t_lo: "d * (k * k) \<le> sqrt S"
    by (rule real_le_rsqrt) (use Sl in \<open>simp add: power2_eq_square\<close>)
  have t0: "sqrt S = 0 \<or> 1 / 2 ^ 502 \<le> \<bar>sqrt S\<bar>"
  proof (cases "S = 0")
    case True
    then show ?thesis by simp
  next
    case False
    with S(2,5) have "1 / 2 ^ 1004 \<le> S" by simp
    then have "1 / 2 ^ 502 \<le> sqrt S"
      by (intro real_le_rsqrt) (simp add: power2_eq_square field_simps)
    moreover have "\<bar>sqrt S\<bar> = sqrt S" using S(5) by simp
    ultimately have "1 / 2 ^ 502 \<le> \<bar>sqrt S\<bar>" by (simp only:)
    then show ?thesis by (rule disjI2)
  qed
  have "sqrt S \<le> 2 ^ 503"
    by (rule real_le_lsqrt) (use S(3,5) in \<open>simp_all add: power2_eq_square\<close>)
  then have t1: "\<bar>sqrt S\<bar> \<le> 2 ^ 503" using S(5) by simp
  have t2: "0 \<le> sqrt S" using S(5) by simp
  from round_step [OF t0 t1] t2 obtain D where D: "to_double (sqrt S) = Fin D"
    "D = 0 \<or> 1 / 2 ^ 502 / 2 \<le> \<bar>D\<bar>" "\<bar>D\<bar> \<le> 2 * 2 ^ 503" "\<bar>sqrt S\<bar> * k \<le> \<bar>D\<bar>" "0 \<le> D"
    unfolding k_def by (auto simp: power_int_minus_divide)
  have "d * (k * k) * k \<le> sqrt S * k"
    using t_lo k(1) by (intro mult_right_mono) simp_all
  with D(4,5) t2 have Dl: "d * (k * k * k) \<le> D" by (simp add: mult.assoc)
  \<comment> \<open>the kilometres\<close>
  have w: "D * 111 = 0 \<or> 1 / 2 ^ 503 \<le> \<bar>D * 111\<bar>" "\<bar>D * 111\<bar> \<le> 2 ^ 511" "0 \<le> D * 111"
    using D(2,3,5) by auto
  from round_step [OF w(1,2)] w(3) obtain C where C: "to_double (D * 111) = Fin C"
    "\<bar>D * 111\<bar> * k \<le> \<bar>C\<bar>" "0 \<le> C"
    unfolding k_def by (auto simp: power_int_minus_divide)
  have "d * (k * k * k) * (111 * k) \<le> D * (111 * k)"
    using Dl k(1) by (intro mult_right_mono) simp_all
  with C(2,3) D(5) have Cl: "d * 111 * (k * k * k * k) \<le> C" by (simp add: mult_ac)
  have "1 - 1 / 2 ^ 50 \<le> k * k * k * k" by (simp add: k_def)
  then have "d * 111 * (1 - 1 / 2 ^ 50) \<le> d * 111 * (k * k * k * k)"
    using d(1) by (intro mult_left_mono) simp_all
  moreover have "r < d * 111 * (1 - 1 / 2 ^ 50)" using far by (simp only: d_def)
  ultimately have "r < C" using Cl by linarith
  have "\<not> S < 0" using S(5) by simp
  then have "near (Fin a0) (Fin b0) (Fin r) g \<longleftrightarrow> C \<le> r"
    by (simp add: near_def g js_sub_def U V P Q S D C)
  with \<open>r < C\<close> show ?thesis by simp
qed

section \<open>What the operations store\<close>

text \<open>
  Along every run of events: a stored message has the text that \<open>send\<close> stored, trimmed
  and not empty; a listed group is as \<open>create\<close> made it.
\<close>

lemma set_update_cases:
  "p \<in> set (AList.update k v al) \<Longrightarrow> p = (k, v) \<or> p \<in> set al"
  by (induction al) (auto split: if_splits)

lemma set_stored:
  "set (stored b) =
     {m. \<exists>k ms. (k, ms) \<in> set (messages b) \<and> m \<in> set ms} \<union>
     (case prototype b of None \<Rightarrow> {} | Some a \<Rightarrow> set a)"
  by (force simp: stored_def split: option.splits)

lemma stored_assign_empty: "set (stored (assign_empty k b)) \<subseteq> set (stored b)"
proof
  fix x
  assume x: "x \<in> set (stored (assign_empty k b))"
  show "x \<in> set (stored b)"
  proof (cases "k = lit ''__proto__''")
    case True
    with x show ?thesis by (auto simp: set_stored assign_empty_def split: option.splits)
  next
    case False
    with x have "(\<exists>k' ms. (k', ms) \<in> set (AList.update k [] (messages b)) \<and> x \<in> set ms) \<or>
        x \<in> (case prototype b of None \<Rightarrow> {} | Some a \<Rightarrow> set a)"
      by (auto simp: set_stored assign_empty_def)
    then show ?thesis
    proof
      assume "\<exists>k' ms. (k', ms) \<in> set (AList.update k [] (messages b)) \<and> x \<in> set ms"
      then obtain k' ms where "(k', ms) \<in> set (AList.update k [] (messages b))" and "x \<in> set ms"
        by blast
      from set_update_cases [OF this(1)] this(2) show ?thesis by (auto simp: set_stored)
    next
      assume "x \<in> (case prototype b of None \<Rightarrow> {} | Some a \<Rightarrow> set a)"
      then show ?thesis by (simp add: set_stored)
    qed
  qed
qed

lemma stored_push:
  assumes "push k m b = Inr b'"
  shows "set (stored b') \<subseteq> insert m (set (stored b))"
proof (cases "map_of (messages b) k")
  case (Some ms)
  with assms have b': "b' = b\<lparr>messages := AList.update k (ms @ [m]) (messages b)\<rparr>"
    by (simp add: push_def)
  from Some have own: "(k, ms) \<in> set (messages b)" by (rule map_of_SomeD)
  show ?thesis
  proof
    fix x
    assume "x \<in> set (stored b')"
    then have "(\<exists>k' ms'. (k', ms') \<in> set (AList.update k (ms @ [m]) (messages b)) \<and> x \<in> set ms') \<or>
        x \<in> (case prototype b of None \<Rightarrow> {} | Some a \<Rightarrow> set a)"
      by (auto simp: set_stored b')
    then show "x \<in> insert m (set (stored b))"
    proof
      assume "\<exists>k' ms'. (k', ms') \<in> set (AList.update k (ms @ [m]) (messages b)) \<and> x \<in> set ms'"
      then obtain k' ms' where "(k', ms') \<in> set (AList.update k (ms @ [m]) (messages b))"
        and "x \<in> set ms'" by blast
      from set_update_cases [OF this(1)] this(2) own show ?thesis
        unfolding set_stored by fastforce
    next
      assume "x \<in> (case prototype b of None \<Rightarrow> {} | Some a \<Rightarrow> set a)"
      then show ?thesis by (simp add: set_stored)
    qed
  qed
next
  case None
  with assms obtain a where "inherited b k = Array a" and b': "b' = b\<lparr>prototype := Some (a @ [m])\<rparr>"
    by (auto simp: push_def split: js_value.splits)
  then have "prototype b = Some a"
    by (auto simp: inherited_def split: option.splits if_splits)
  with b' show ?thesis by (auto simp: set_stored)
qed

lemma stored_postMessage:
  assumes "postMessage k m b = Inr b'"
  shows "set (stored b') \<subseteq> insert m (set (stored b))"
proof (cases "truthy (lookup b k)")
  case True
  with assms have "push k m b = Inr b'" by (simp add: postMessage_def)
  then show ?thesis by (rule stored_push)
next
  case False
  with assms have "push k m (assign_empty k b) = Inr b'" by (simp add: postMessage_def)
  then have "set (stored b') \<subseteq> insert m (set (stored (assign_empty k b)))" by (rule stored_push)
  with stored_assign_empty [of k b] show ?thesis by blast
qed

lemma stored_removeExpired: "set (stored (removeExpired now b)) \<subseteq> set (stored b)"
  by (auto simp: set_stored messages_removeExpired prototype_removeExpired)

lemma stored_createGroup: "set (stored (createGroup g b)) \<subseteq> set (stored b)"
proof -
  have "set (stored (b\<lparr>groups := groups b @ [g]\<rparr>)) = set (stored b)"
    by (simp add: stored_def)
  with stored_assign_empty [of "id_g g" "b\<lparr>groups := groups b @ [g]\<rparr>"] show ?thesis
    by (simp add: createGroup_def)
qed

lemma send_Posted_text:
  "fst (send grp anon h t u now b) = Posted m \<Longrightarrow> text_m m = trim t \<and> trim t \<noteq> []"
  by (auto simp: send_def Let_def split: if_splits sum.splits)

lemma stored_send:
  "set (stored (snd (send grp anon h t u now b))) \<subseteq>
     set (stored b) \<union> {m. fst (send grp anon h t u now b) = Posted m}"
  by (auto simp: send_def Let_def split: sum.splits dest!: stored_postMessage)

lemma stored_exec:
  assumes "m \<in> set (stored (exec e b))"
  shows "m \<in> set (stored b) \<or> (text_m m \<noteq> [] \<and> trim (text_m m) = text_m m)"
proof (cases e)
  case (Create n a i l u t)
  with assms stored_createGroup show ?thesis by (auto simp: create_def Let_def)
next
  case (Send grp anon h t u now)
  with assms stored_send [of grp anon h t u now b]
  have "m \<in> set (stored b) \<or> fst (send grp anon h t u now b) = Posted m" by auto
  then show ?thesis by (auto dest!: send_Posted_text simp: trim_idem)
next
  case (LoadNearby now loc)
  with assms stored_removeExpired show ?thesis by (auto simp: loadNearby_def Let_def)
next
  case (Timer now)
  with assms stored_removeExpired show ?thesis by auto
qed

lemma stored_run:
  "m \<in> set (stored (run es b)) \<Longrightarrow>
     m \<in> set (stored b) \<or> (text_m m \<noteq> [] \<and> trim (text_m m) = text_m m)"
  unfolding run_def
proof (induction es arbitrary: b)
  case Nil
  then show ?case by simp
next
  case (Cons e es)
  from Cons.prems have "m \<in> set (stored (fold exec es (exec e b)))" by simp
  from Cons.IH [OF this] show ?case using stored_exec by blast
qed

lemma groups_assign_empty: "groups (assign_empty k b) = groups b"
  by (simp add: assign_empty_def)

lemma groups_push: "push k m b = Inr b' \<Longrightarrow> groups b' = groups b"
  by (auto simp: push_def split: option.splits js_value.splits)

lemma groups_postMessage: "postMessage k m b = Inr b' \<Longrightarrow> groups b' = groups b"
  by (auto simp: postMessage_def groups_assign_empty split: if_splits dest!: groups_push)

lemma groups_send: "groups (snd (send grp anon h t u now b)) = groups b"
  by (auto simp: send_def Let_def split: sum.splits dest: groups_postMessage)

lemma groups_exec:
  assumes "g \<in> set (groups (exec e b))"
  shows "g \<in> set (groups b) \<or> expiresAt g = createdAt g + 86400000"
proof (cases e)
  case (Create n a i l u t)
  with assms show ?thesis by (auto simp: create_def createGroup_def groups_assign_empty Let_def)
next
  case (Send grp anon h t u now)
  with assms show ?thesis by (simp add: groups_send)
next
  case (LoadNearby now loc)
  with assms show ?thesis by (simp add: loadNearby_def Let_def groups_removeExpired)
next
  case (Timer now)
  with assms show ?thesis by (simp add: groups_removeExpired)
qed

lemma groups_run:
  "g \<in> set (groups (run es b)) \<Longrightarrow>
     g \<in> set (groups b) \<or> expiresAt g = createdAt g + 86400000"
  unfolding run_def
proof (induction es arbitrary: b)
  case Nil
  then show ?case by simp
next
  case (Cons e es)
  from Cons.prems have "g \<in> set (groups (fold exec es (exec e b)))" by simp
  from Cons.IH [OF this] show ?case using groups_exec by blast
qed

section \<open>The examples, evaluated\<close>

lemma lit_simps: "lit [] = []" "lit (c # cs) = of_char c # lit cs"
  by (simp_all add: lit_def)

lemma study_room_eq:
  "study_room = \<lparr>id_g = lit ''g1'', name = lit ''Study'', createdAt = 1000,
     expiresAt = 86401000, lat = Fin (29 / 2), lng = Fin 121, anonymousAllowed = False,
     icebreaker = Some (lit ''Two truths'')\<rparr>"
  by (simp add: study_room_def create_def or_else_def campus_def lit_simps Let_def)

lemma second_room_eq:
  "second_room = \<lparr>id_g = lit ''g1'', name = lit ''Again'', createdAt = 5000,
     expiresAt = 86405000, lat = Fin (29 / 2), lng = Fin 121, anonymousAllowed = True,
     icebreaker = Some (lit ''Two truths'')\<rparr>"
  by (simp add: second_room_def create_def or_else_def campus_def lit_simps Let_def)

lemma id_study_room: "id_g study_room = lit ''g1''"
  by (simp add: study_room_eq)

lemma expiresAt_study_room: "expiresAt study_room = 86401000"
  by (simp add: study_room_eq)

lemma id_second_room: "id_g second_room = lit ''g1''"
  by (simp add: second_room_eq)

lemma expiresAt_second_room: "expiresAt second_room = 86405000"
  by (simp add: second_room_eq)

lemma trim_hello: "trim (lit '' hello '') = lit ''hello''"
  by (simp add: trim_def lit_simps white_space_def)

lemma trim_later: "trim (lit ''later'') = lit ''later''"
  by (simp add: trim_def lit_simps white_space_def)

lemma create_study_room:
  "create (lit ''Study'') False (lit ''Two truths'') campus (lit ''g1'') 1000 init =
     (study_room, \<lparr>groups = [study_room], messages = [(lit ''g1'', [])], prototype = None\<rparr>)"
proof -
  have "lit ''g1'' \<noteq> lit ''__proto__''" by (simp add: lit_simps)
  then have "snd (create (lit ''Study'') False (lit ''Two truths'') campus (lit ''g1'') 1000 init) =
      \<lparr>groups = [fst (create (lit ''Study'') False (lit ''Two truths'') campus (lit ''g1'') 1000 init)],
        messages = [(lit ''g1'', [])], prototype = None\<rparr>"
    by (simp add: create_def createGroup_def assign_empty_def init_def Let_def)
  then show ?thesis by (simp add: prod_eq_iff study_room_def)
qed

lemma send_hello:
  "send study_room False (lit ''ann'') (lit '' hello '') (lit ''m1'') 2000
      \<lparr>groups = [study_room], messages = [(lit ''g1'', [])], prototype = None\<rparr> =
     (Posted hello, \<lparr>groups = [study_room], messages = [(lit ''g1'', [hello])], prototype = None\<rparr>)"
proof -
  have "postMessage (lit ''g1'') hello
      \<lparr>groups = [study_room], messages = [(lit ''g1'', [])], prototype = None\<rparr> =
      Inr \<lparr>groups = [study_room], messages = [(lit ''g1'', [hello])], prototype = None\<rparr>"
    by (simp add: postMessage_own)
  moreover have "lit ''hello'' \<noteq> []" and "lit ''ann'' \<noteq> []" by (simp_all add: lit_simps)
  ultimately show ?thesis
    by (simp add: send_def trim_hello id_study_room or_else_def Let_def hello_def)
qed

lemma demo_hello:
  "demo = \<lparr>groups = [study_room], messages = [(lit ''g1'', [hello])], prototype = None\<rparr>"
  by (simp add: demo_def run_def create_study_room send_hello)

lemma twin_eq:
  "twin = \<lparr>groups = [study_room, second_room], messages = [(lit ''g1'', [later])],
     prototype = None\<rparr>"
proof -
  have ne: "lit ''g1'' \<noteq> lit ''__proto__''" by (simp add: lit_simps)
  have 2: "create (lit ''Again'') True (lit ''Two truths'') campus (lit ''g1'') 5000
      \<lparr>groups = [study_room], messages = [(lit ''g1'', [])], prototype = None\<rparr> =
      (second_room,
       \<lparr>groups = [study_room, second_room], messages = [(lit ''g1'', [])], prototype = None\<rparr>)"
  proof -
    have "fst (create (lit ''Again'') True (lit ''Two truths'') campus (lit ''g1'') 5000
        \<lparr>groups = [study_room], messages = [(lit ''g1'', [])], prototype = None\<rparr>) = second_room"
      by (simp add: create_def second_room_def Let_def)
    moreover from ne have "snd (create (lit ''Again'') True (lit ''Two truths'') campus (lit ''g1'') 5000
        \<lparr>groups = [study_room], messages = [(lit ''g1'', [])], prototype = None\<rparr>) =
        \<lparr>groups = [study_room, fst (create (lit ''Again'') True (lit ''Two truths'') campus
            (lit ''g1'') 5000 init)], messages = [(lit ''g1'', [])], prototype = None\<rparr>"
      by (simp add: create_def createGroup_def assign_empty_def Let_def)
    ultimately show ?thesis by (simp add: prod_eq_iff second_room_def)
  qed
  have "postMessage (lit ''g1'') later
      \<lparr>groups = [study_room, second_room], messages = [(lit ''g1'', [])], prototype = None\<rparr> =
      Inr \<lparr>groups = [study_room, second_room], messages = [(lit ''g1'', [later])],
        prototype = None\<rparr>"
    by (simp add: postMessage_own)
  moreover have "lit ''later'' \<noteq> []" and "lit ''bob'' \<noteq> []" by (simp_all add: lit_simps)
  ultimately have 3: "send second_room False (lit ''bob'') (lit ''later'') (lit ''m2'') 6000
      \<lparr>groups = [study_room, second_room], messages = [(lit ''g1'', [])], prototype = None\<rparr> =
      (Posted later,
       \<lparr>groups = [study_room, second_room], messages = [(lit ''g1'', [later])], prototype = None\<rparr>)"
    by (simp add: send_def trim_later id_second_room or_else_def Let_def later_def)
  show ?thesis by (simp add: twin_def run_def create_study_room 2 3)
qed

lemma twin_swept:
  "removeExpired 86401000 twin =
     \<lparr>groups = [second_room], messages = [(lit ''g1'', [later])], prototype = None\<rparr>"
  by (simp add: twin_eq removeExpired_def sweep_key_def Let_def expiresAt_study_room
      expiresAt_second_room id_second_room)

lemma stored_demo: "stored demo = [hello]"
  by (simp add: stored_def demo_hello)

lemma near_campus: "near (Fin (29 / 2)) (Fin 121) (Fin 50) study_room"
  by (simp add: near_def study_room_eq js_sub_def to_double_def)

lemma removeExpired_demo: "removeExpired 3000 demo = demo"
  by (simp add: removeExpired_def demo_hello sweep_key_def Let_def id_study_room
      expiresAt_study_room)

lemma loadNearby_demo: "loadNearby 3000 campus demo = (demo, [study_room])"
proof -
  have "listGroupsNearby (Fin (29 / 2)) (Fin 121) (Some (Fin 50)) demo = [study_room]"
    by (simp add: listGroupsNearby_def demo_hello near_campus)
  then show ?thesis
    by (simp add: loadNearby_def removeExpired_demo campus_def sort_by_def)
qed

lemma not_inherited_g1: "inherited demo (lit ''g1'') = Undefined"
  by (simp add: inherited_plain demo_hello object_prototype_names_def lit_simps)




lemma stray_sweep: "removeExpired 3000 orphaned = demo"
  by (simp add: orphaned_def removeExpired_def sweep_key_def Let_def id_study_room
      expiresAt_study_room lit_simps demo_hello)

lemma to_double_tiny: "to_double tiny = Fin tiny"
proof -
  have "to_double tiny = Fin (real_of_int (2 ^ 52) * 2 powi (- 600 - 52))"
    by (rule to_double_normal) (simp_all add: tiny_def power_int_minus_divide)
  then show ?thesis by (simp add: tiny_def power_int_minus_divide)
qed

lemma to_double_tiny_square: "to_double (tiny * tiny) = Fin 0"
  by (rule to_double_underflow) (simp add: tiny_def power_int_minus_divide)

lemma near_speck: "near (Fin 0) (Fin 0) (Fin 0) speck"
proof -
  have "lat speck = Fin tiny" and "lng speck = Fin 0" by (simp_all add: speck_def)
  then show ?thesis
    by (simp add: near_def js_sub_zero to_double_tiny to_double_tiny_square to_double_zero)
qed

lemma edge_beyond: "50 / 111 < edge"
  by (simp add: edge_def)

lemma to_double_edge: "to_double edge = Fin edge"
proof -
  have "to_double edge = Fin (real_of_int 8114593923190083 * 2 powi (- 2 - 52))"
    by (rule to_double_normal) (simp_all add: edge_def power_int_minus_divide)
  then show ?thesis by (simp add: edge_def power_int_minus_divide)
qed

lemma to_double_edge_times_edge: "to_double (edge * edge) = Fin edge_square"
proof -
  have "to_double (edge * edge) = Fin (real_of_int 7310444975846922 * 2 powi (- 3 - 52))"
    by (rule to_double_normal) (simp_all add: edge_def power_int_minus_divide)
  then show ?thesis by (simp add: edge_square_def power_int_minus_divide)
qed

lemma to_double_edge_square: "to_double edge_square = Fin edge_square"
proof -
  have "to_double edge_square = Fin (real_of_int 7310444975846922 * 2 powi (- 3 - 52))"
    by (rule to_double_normal) (simp_all add: edge_square_def power_int_minus_divide)
  then show ?thesis by (simp add: edge_square_def power_int_minus_divide)
qed

lemma sqrt_edge_square:
  "16229187846380165 / 2 ^ 55 < sqrt edge_square" "sqrt edge_square < 16229187846380167 / 2 ^ 55"
proof -
  show "16229187846380165 / 2 ^ 55 < sqrt edge_square"
    by (rule real_less_rsqrt) (simp add: edge_square_def power2_eq_square)
  show "sqrt edge_square < 16229187846380167 / 2 ^ 55"
    by (rule real_less_lsqrt) (simp_all add: edge_square_def power2_eq_square)
qed

lemma to_double_sqrt_edge_square: "to_double (sqrt edge_square) = Fin edge"
proof -
  note b = sqrt_edge_square
  have pos: "0 \<le> sqrt edge_square" by (simp add: edge_square_def)
  have "to_double (sqrt edge_square) = Fin (real_of_int 8114593923190083 * 2 powi (- 2 - 52))"
  proof (rule to_double_normal)
    show "2 powi - 2 \<le> \<bar>sqrt edge_square\<bar>"
      using b(1) pos by (simp add: power_int_minus_divide)
    show "\<bar>sqrt edge_square\<bar> < 2 powi (- 2 + 1)"
      using b(2) pos by (simp add: power_int_minus_divide)
    have "sqrt edge_square * 2 ^ 54 < 8114593923190083 + 1 / 2"
      using b(2) by (simp add: field_simps)
    moreover have "8114593923190083 - 1 / 2 < sqrt edge_square * 2 ^ 54"
      using b(1) by (simp add: field_simps)
    ultimately have "\<bar>sqrt edge_square * 2 ^ 54 - 8114593923190083\<bar> < 1 / 2"
      unfolding abs_less_iff by linarith
    then show "\<bar>sqrt edge_square / 2 powi (- 2 - 52) - real_of_int 8114593923190083\<bar> < 1 / 2"
      by (simp add: power_int_minus_divide)
    show "\<bar>real_of_int 8114593923190083 * 2 powi (- 2 - 52)\<bar> < 2 ^ 1024"
      by (simp add: power_int_minus_divide)
  qed simp
  then show ?thesis by (simp add: edge_def power_int_minus_divide)
qed

lemma to_double_edge_km: "to_double (edge * 111) = Fin 50"
proof -
  have "to_double (edge * 111) = Fin (real_of_int 7036874417766400 * 2 powi (5 - 52))"
    by (rule to_double_normal) (simp_all add: edge_def power_int_minus_divide)
  then show ?thesis by (simp add: power_int_minus_divide)
qed

lemma near_rim: "near (Fin 0) (Fin 0) (Fin 50) rim"
proof -
  have "lat rim = Fin edge" and "lng rim = Fin 0" by (simp_all add: rim_def)
  moreover have "\<not> edge_square < 0" by (simp add: edge_square_def)
  ultimately show ?thesis
    by (simp add: near_def js_sub_zero to_double_edge to_double_edge_times_edge to_double_zero
        to_double_edge_square to_double_sqrt_edge_square to_double_edge_km)
qed

section \<open>Identifiers made by \<open>uuid\<close>\<close>

lemma uuid_like_not_proto: "uuid_like k \<Longrightarrow> k \<noteq> lit ''__proto__''"
  using uuid_not_inherited [of k "init"] inherited_proto_truthy [of "init"]
  by (auto simp: init_def)

lemma prototype_push:
  assumes "push k m b = Inr b'" and "prototype b = None"
  shows "prototype b' = None"
proof (cases "map_of (messages b) k")
  case (Some ms)
  with assms show ?thesis by (auto simp: push_def)
next
  case None
  from assms(2) have "inherited b k = Builtin \<or> inherited b k = Undefined"
    by (simp add: inherited_plain)
  with None assms(1) show ?thesis by (auto simp: push_def)
qed

lemma prototype_postMessage:
  assumes "postMessage k m b = Inr b'" and "prototype b = None"
  shows "prototype b' = None"
proof (cases "truthy (lookup b k)")
  case True
  with assms(1) have "push k m b = Inr b'" by (simp add: postMessage_def)
  then show ?thesis using assms(2) by (rule prototype_push)
next
  case False
  have "k \<noteq> lit ''__proto__''"
  proof
    assume "k = lit ''__proto__''"
    with False have "\<not> truthy (lookup b (lit ''__proto__''))" by simp
    moreover have "truthy (lookup b (lit ''__proto__''))"
      using inherited_proto_truthy [of b]
      by (cases "map_of (messages b) (lit ''__proto__'')") (simp_all add: lookup_def)
    ultimately show False by simp
  qed
  then have "prototype (assign_empty k b) = None" using assms(2) by (simp add: assign_empty_def)
  moreover from False assms(1) have "push k m (assign_empty k b) = Inr b'"
    by (simp add: postMessage_def)
  ultimately show ?thesis using prototype_push by blast
qed

lemma prototype_send:
  "prototype b = None \<Longrightarrow> prototype (snd (send grp anon h t u now b)) = None"
  by (auto simp: send_def Let_def split: sum.splits dest: prototype_postMessage)

lemma prototype_create:
  assumes "uuid_like u" and "prototype b = None"
  shows "prototype (snd (create n a i l u t b)) = None"
proof -
  from assms(1) have "u \<noteq> lit ''__proto__''" by (rule uuid_like_not_proto)
  with assms(2) show ?thesis by (simp add: create_def createGroup_def assign_empty_def Let_def)
qed

lemma groups_create_uuid:
  assumes "uuid_like u" and "\<forall>g\<in>set (groups b). uuid_like (id_g g)"
  shows "\<forall>g\<in>set (groups (snd (create n a i l u t b))). uuid_like (id_g g)"
  using assms by (auto simp: create_def createGroup_def groups_assign_empty Let_def)

lemma uuid_exec:
  assumes "uuid_event e" and "prototype b = None" and "\<forall>g\<in>set (groups b). uuid_like (id_g g)"
  shows "prototype (exec e b) = None \<and> (\<forall>g\<in>set (groups (exec e b)). uuid_like (id_g g))"
proof (cases e)
  case (Create n a i l u t)
  with assms(1) have "uuid_like u" by simp
  from prototype_create [OF this assms(2)] groups_create_uuid [OF this assms(3)] Create
  show ?thesis by simp
next
  case (Send grp anon h t u now)
  with assms(2,3) show ?thesis by (simp add: prototype_send groups_send)
next
  case (LoadNearby now loc)
  with assms(2,3) show ?thesis
    by (simp add: loadNearby_def Let_def prototype_removeExpired groups_removeExpired)
next
  case (Timer now)
  with assms(2,3) show ?thesis
    by (simp add: prototype_removeExpired groups_removeExpired)
qed

lemma uuid_fold:
  assumes "list_all uuid_event es" and "prototype b = None"
    and "\<forall>g\<in>set (groups b). uuid_like (id_g g)"
  shows "prototype (fold exec es b) = None \<and>
         (\<forall>g\<in>set (groups (fold exec es b)). uuid_like (id_g g))"
  using assms
proof (induction es arbitrary: b)
  case Nil
  then show ?case by simp
next
  case (Cons e es)
  from Cons.prems have "uuid_event e" and rest: "list_all uuid_event es" by simp_all
  from uuid_exec [OF this(1) Cons.prems(2,3)]
  have "prototype (exec e b) = None" and "\<forall>g\<in>set (groups (exec e b)). uuid_like (id_g g)"
    by simp_all
  from Cons.IH [OF rest this] show ?case by simp
qed

text \<open>
  While \<open>uuid\<close> returns what it can return, the prototype of \<open>messages\<close> stays
  \<open>Object.prototype\<close>, and no listed group has an id that the prototype answers for.
\<close>

lemma uuid_run:
  assumes "list_all uuid_event es"
  shows "prototype (run es init) = None \<and> (\<forall>g\<in>set (groups (run es init)). uuid_like (id_g g))"
proof -
  have "prototype init = None" and "\<forall>g\<in>set (groups init). uuid_like (id_g g)"
    by (simp_all add: init_def)
  from uuid_fold [OF assms this] show ?thesis by (simp add: run_def)
qed

lemma uuid_run_not_inherited:
  assumes "list_all uuid_event es" and "g \<in> set (groups (run es init))"
  shows "inherited (run es init) (id_g g) = Undefined"
proof -
  from uuid_run [OF assms(1)] assms(2)
  have "prototype (run es init) = None" and "uuid_like (id_g g)" by simp_all
  from uuid_not_inherited [OF this(2,1)] show ?thesis .
qed

section \<open>The claims\<close>

text \<open>
  C1. Every call of the list operation returns no group whose \<open>expiresAt\<close> is at or before
  the clock reading of the call: it sweeps first (the backend it leaves is the swept one),
  and the list holds exactly the groups that are left and pass the distance test.
\<close>

theorem loadNearby_omits_expired:
  "fst (loadNearby now loc b) = removeExpired now b \<and>
   set (snd (loadNearby now loc b)) =
     {g \<in> set (groups (removeExpired now b)). near (latitude loc) (longitude loc) (Fin 50) g} \<and>
   (\<forall>g\<in>set (snd (loadNearby now loc b)). now < expiresAt g)"
  by (auto simp: loadNearby_def Let_def set_sort_by listGroupsNearby_def groups_removeExpired)

theorem loadNearby_omits_expired_witness:
  "snd (loadNearby 3000 campus demo) = [study_room] \<and> 3000 < expiresAt study_room"
  using loadNearby_omits_expired [of 3000 campus demo]
  by (simp add: loadNearby_demo)

text \<open>
  C2, with what the sweep looks at. Let a group of the directory have an \<open>expiresAt\<close> at or
  before the clock reading of a sweep. The sweep takes the group out of the list, and
  whatever happens next, no later call of the list operation returns it. The sweep keeps a
  collection as long as a listed group has its id: when no group that expires later bears
  the id, no listed group bears it after the sweep and the collection under it is
  deleted; \<open>getMessages\<close> on the id then returns an empty array, provided that the
  prototype of \<open>messages\<close> has no property of that name. In \<open>twin\<close>, where a later group
  has the id of \<open>study_room\<close>, the sweep that expires \<open>study_room\<close> keeps the collection,
  and \<open>getMessages\<close> returns the message posted to the later group.
\<close>

theorem sweep_removes_expired_group:
  assumes "g \<in> set (groups b)" and "expiresAt g \<le> now"
  shows "g \<notin> set (groups (removeExpired now b)) \<and>
         (\<forall>es now' loc. now \<le> now' \<longrightarrow>
            g \<notin> set (snd (loadNearby now' loc (run es (removeExpired now b))))) \<and>
         ((\<forall>x\<in>set (groups b). now < expiresAt x \<longrightarrow> id_g x \<noteq> id_g g) \<longrightarrow>
            (\<forall>x\<in>set (groups (removeExpired now b)). id_g x \<noteq> id_g g) \<and>
            map_of (messages (removeExpired now b)) (id_g g) = None \<and>
            (inherited b (id_g g) = Undefined \<longrightarrow>
               getMessages (id_g g) (removeExpired now b) = Array []))"
proof -
  have 1: "g \<notin> set (groups (removeExpired now b))"
    using assms(2) by (simp add: groups_removeExpired)
  have 2: "g \<notin> set (snd (loadNearby now' loc b'))" if "now \<le> now'" for now' loc b'
  proof
    assume "g \<in> set (snd (loadNearby now' loc b'))"
    then have "now' < expiresAt g" by (rule loadNearby_live)
    with that assms(2) show False by simp
  qed
  have 3: "(\<forall>x\<in>set (groups (removeExpired now b)). id_g x \<noteq> id_g g) \<and>
      map_of (messages (removeExpired now b)) (id_g g) = None \<and>
      (inherited b (id_g g) = Undefined \<longrightarrow> getMessages (id_g g) (removeExpired now b) = Array [])"
    if alone: "\<forall>x\<in>set (groups b). now < expiresAt x \<longrightarrow> id_g x \<noteq> id_g g"
  proof -
    from alone have a: "\<forall>x\<in>set (groups (removeExpired now b)). id_g x \<noteq> id_g g"
      by (simp add: groups_removeExpired)
    have "id_g g \<notin> id_g ` set (filter (\<lambda>g. now < expiresAt g) (groups b))"
    proof
      assume "id_g g \<in> id_g ` set (filter (\<lambda>g. now < expiresAt g) (groups b))"
      then obtain x where "x \<in> set (groups b)" and "now < expiresAt x" and "id_g x = id_g g"
        by force
      with alone show False by blast
    qed
    then have b: "map_of (messages (removeExpired now b)) (id_g g) = None"
      by (rule no_live_id)
    have "getMessages (id_g g) (removeExpired now b) = Array []"
      if "inherited b (id_g g) = Undefined"
      using b that by (intro getMessages_gone) (simp_all add: inherited_removeExpired)
    with a b show ?thesis by blast
  qed
  from 1 2 3 show ?thesis by blast
qed

theorem sweep_removes_expired_group_witness:
  "study_room \<in> set (groups demo) \<and> expiresAt study_room \<le> 86401000 \<and>
   inherited demo (id_g study_room) = Undefined \<and>
   getMessages (id_g study_room) demo = Array [hello] \<and>
   getMessages (id_g study_room) (removeExpired 86401000 demo) = Array [] \<and>
   map_of (messages (removeExpired 86401000 demo)) (id_g study_room) = None \<and>
   study_room \<notin> set (snd (loadNearby 86401000 campus (run [] (removeExpired 86401000 demo))))"
proof -
  have a: "study_room \<in> set (groups demo)" by (simp add: demo_hello)
  have b: "expiresAt study_room \<le> 86401000" by (simp add: expiresAt_study_room)
  have c: "\<forall>x\<in>set (groups demo). 86401000 < expiresAt x \<longrightarrow> id_g x \<noteq> id_g study_room"
    by (simp add: demo_hello expiresAt_study_room)
  have d: "inherited demo (id_g study_room) = Undefined"
    by (simp add: id_study_room not_inherited_g1)
  have e: "getMessages (id_g study_room) demo = Array [hello]"
    by (simp add: getMessages_def lookup_def demo_hello id_study_room)
  from sweep_removes_expired_group [OF a b] a b c d e show ?thesis by simp
qed

theorem duplicate_id_keeps_collection:
  "study_room \<in> set (groups twin) \<and> expiresAt study_room \<le> 86401000 \<and>
   getMessages (id_g study_room) (removeExpired 86401000 twin) = Array [later] \<and>
   (\<exists>x\<in>set (groups (removeExpired 86401000 twin)). id_g x = id_g study_room)"
proof -
  have "getMessages (lit ''g1'') (removeExpired 86401000 twin) = Array [later]"
    by (simp only: twin_swept) (simp add: getMessages_def lookup_def)
  moreover have "\<exists>x\<in>set (groups (removeExpired 86401000 twin)). id_g x = lit ''g1''"
    by (simp only: twin_swept) (simp add: id_second_room)
  moreover have "study_room \<in> set (groups twin)" by (simp add: twin_eq)
  ultimately show ?thesis by (simp add: id_study_room expiresAt_study_room)
qed

text \<open>
  C3, in the order in which \<open>send\<close> makes its two checks. On a group that does not allow
  anonymous posts, \<open>send\<close> with the anonymous switch on leaves the backend, and so the
  group's messages, unchanged whatever the text is; when the text is not blank it raises
  the alert that anonymous posts are not allowed. A blank text returns silently before
  the policy is looked at.
\<close>

theorem anonymous_post_rejected:
  assumes "\<not> anonymousAllowed grp"
  shows "snd (send grp True h t u now b) = b \<and>
         getMessages (id_g grp) (snd (send grp True h t u now b)) = getMessages (id_g grp) b \<and>
         ((\<exists>c\<in>set t. \<not> white_space c) \<longrightarrow>
            fst (send grp True h t u now b) =
              Alert (lit ''Anonymous posts are not allowed in this Spark.''))"
  using assms by (simp add: send_def not_blank_iff [symmetric])

theorem anonymous_post_rejected_witness:
  "\<not> anonymousAllowed study_room \<and> (\<exists>c\<in>set (lit ''hi''). \<not> white_space c) \<and>
   send study_room True (lit ''ann'') (lit ''hi'') (lit ''m2'') 3000 demo =
     (Alert (lit ''Anonymous posts are not allowed in this Spark.''), demo)"
proof -
  have a: "\<not> anonymousAllowed study_room" by (simp add: study_room_eq)
  have b: "\<exists>c\<in>set (lit ''hi''). \<not> white_space c"
    by (simp add: lit_simps white_space_def)
  from anonymous_post_rejected [OF a, of "lit ''ann''" "lit ''hi''" "lit ''m2''" 3000 demo] a b
  show ?thesis by (simp add: prod_eq_iff)
qed

theorem anonymous_blank_post_ignored:
  "\<not> anonymousAllowed study_room \<and>
   fst (send study_room True (lit ''ann'') (lit ''  '') (lit ''m2'') 3000 demo) = Ignored \<and>
   fst (send study_room True (lit ''ann'') (lit ''  '') (lit ''m2'') 3000 demo) \<noteq>
     Alert (lit ''Anonymous posts are not allowed in this Spark.'')"
  by (simp add: study_room_eq send_def trim_def lit_simps white_space_def)

text \<open>
  C4. When the text is empty or white space only, \<open>send\<close> returns silently: the backend
  is the one it was given, and \<open>getMessages\<close> returns under every id what it returned, so
  every collection has the length it had. A message that \<open>send\<close> constructs has a text
  that is not blank, and in every backend reached from the empty one, every stored
  message has a text that is not blank.
\<close>

theorem blank_text_never_stored:
  "((\<forall>c\<in>set t. white_space c) \<longrightarrow>
      send grp anon h t u now b = (Ignored, b) \<and>
      getMessages k (snd (send grp anon h t u now b)) = getMessages k b) \<and>
   (\<forall>m. fst (send grp anon h t u now b) = Posted m \<longrightarrow>
      text_m m \<noteq> [] \<and> (\<exists>c\<in>set (text_m m). \<not> white_space c)) \<and>
   (\<forall>m\<in>set (stored (run es init)). text_m m \<noteq> [] \<and> (\<exists>c\<in>set (text_m m). \<not> white_space c))"
proof -
  have 1: "send grp anon h t u now b = (Ignored, b)" if "\<forall>c\<in>set t. white_space c"
    using that by (simp add: send_def trim_Nil_iff)
  have 2: "text_m m \<noteq> [] \<and> (\<exists>c\<in>set (text_m m). \<not> white_space c)"
    if "fst (send grp anon h t u now b) = Posted m" for m
  proof -
    from send_Posted_text [OF that] have "text_m m = trim t" and "trim t \<noteq> []" by simp_all
    then have "trim (text_m m) \<noteq> []" by (simp add: trim_idem)
    then show ?thesis using \<open>text_m m = trim t\<close> \<open>trim t \<noteq> []\<close>
      by (simp add: not_blank_iff)
  qed
  have 3: "text_m m \<noteq> [] \<and> (\<exists>c\<in>set (text_m m). \<not> white_space c)"
    if "m \<in> set (stored (run es init))" for m
  proof -
    have "set (stored init) = {}" by (simp add: stored_def init_def)
    with stored_run [OF that] have "text_m m \<noteq> []" and "trim (text_m m) = text_m m"
      by simp_all
    then have "trim (text_m m) \<noteq> []" by simp
    with \<open>text_m m \<noteq> []\<close> show ?thesis by (simp add: not_blank_iff)
  qed
  from 1 2 3 show ?thesis by simp
qed

theorem blank_text_never_stored_witness:
  "send study_room False (lit ''ann'') [0x20, 0x09, 0xA0] (lit ''m2'') 3000 demo = (Ignored, demo) \<and>
   fst (send study_room False (lit ''ann'') (lit '' hello '') (lit ''m1'') 2000
          (snd (create (lit ''Study'') False (lit ''Two truths'') campus (lit ''g1'') 1000 init)))
     = Posted hello \<and>
   hello \<in> set (stored (run [Create (lit ''Study'') False (lit ''Two truths'') campus (lit ''g1'') 1000,
               Send study_room False (lit ''ann'') (lit '' hello '') (lit ''m1'') 2000] init)) \<and>
   (\<exists>c\<in>set (text_m hello). \<not> white_space c)"
proof -
  let ?es = "[Create (lit ''Study'') False (lit ''Two truths'') campus (lit ''g1'') 1000,
               Send study_room False (lit ''ann'') (lit '' hello '') (lit ''m1'') 2000]"
  let ?b = "snd (create (lit ''Study'') False (lit ''Two truths'') campus (lit ''g1'') 1000 init)"
  have blank: "\<forall>c\<in>set [0x20, 0x09, 0xA0]. white_space c"
    by (simp add: white_space_def)
  have posted: "fst (send study_room False (lit ''ann'') (lit '' hello '') (lit ''m1'') 2000 ?b)
      = Posted hello"
    by (simp add: create_study_room send_hello)
  have held: "hello \<in> set (stored (run ?es init))"
    by (simp add: demo_def [symmetric] stored_demo)
  from blank_text_never_stored [of "[0x20, 0x09, 0xA0]" study_room False "lit ''ann''" "lit ''m2''"
      3000 demo "lit ''g1''" ?es] blank held posted
  show ?thesis by simp
qed

text \<open>
  C5. The group that \<open>create\<close> returns and registers has \<open>createdAt\<close> the clock reading
  and \<open>expiresAt\<close> that reading plus 24 * 60 * 60 * 1000, so their difference is 86400000
  milliseconds; and every group of every backend reached from the empty one still has
  that difference.
\<close>

theorem create_lifetime_24h:
  "expiresAt (fst (create n a i loc u now b)) - createdAt (fst (create n a i loc u now b))
     = 86400000 \<and>
   createdAt (fst (create n a i loc u now b)) = now \<and>
   expiresAt (fst (create n a i loc u now b)) = now + 24 * 60 * 60 * 1000 \<and>
   groups (snd (create n a i loc u now b)) = groups b @ [fst (create n a i loc u now b)] \<and>
   (\<forall>g\<in>set (groups (run es init)). expiresAt g - createdAt g = 86400000)"
proof -
  have "expiresAt g - createdAt g = 86400000" if "g \<in> set (groups (run es init))" for g
    using groups_run [OF that] by (simp add: init_def)
  then show ?thesis by (simp add: create_def createGroup_def groups_assign_empty Let_def)
qed

theorem create_lifetime_24h_witness:
  "study_room \<in> set (groups (run
      [Create (lit ''Study'') False (lit ''Two truths'') campus (lit ''g1'') 1000,
       Send study_room False (lit ''ann'') (lit '' hello '') (lit ''m1'') 2000] init)) \<and>
   expiresAt study_room - createdAt study_room = 86400000"
proof -
  let ?es = "[Create (lit ''Study'') False (lit ''Two truths'') campus (lit ''g1'') 1000,
       Send study_room False (lit ''ann'') (lit '' hello '') (lit ''m1'') 2000]"
  have "study_room \<in> set (groups (run ?es init))"
    by (simp add: demo_def [symmetric] demo_hello)
  with create_lifetime_24h [of n a i loc u now b ?es] show ?thesis by blast
qed

text \<open>
  C6, with the rounding of the double arithmetic. The distance test compares the double
  \<open>Math.sqrt(dLat * dLat + dLng * dLng) * 111\<close>, every operation rounded, with the radius.
  A group at the same finite coordinates as the origin is listed for every radius with
  \<open>0 <= radiusKm\<close>. A group is left out when its Euclidean distance in degrees, reduced by
  the relative margin \<open>2^-50\<close> for the rounding, exceeds \<open>radiusKm / 111\<close>, provided each
  coordinate difference is zero or between \<open>2^-500\<close> and \<open>2^500\<close> in magnitude. Without
  the margin the threshold is not exact: \<open>speck\<close> is listed with the radius 0, and \<open>rim\<close>
  is listed with the default radius 50.
\<close>

theorem distance_filter_margin:
  "(g \<in> set (groups b) \<and> lat g = Fin x \<and> lng g = Fin y \<and> js_le (Fin 0) r \<longrightarrow>
      g \<in> set (listGroupsNearby (Fin x) (Fin y) (Some r) b)) \<and>
   (lat g = Fin a1 \<and> lng g = Fin b1 \<and>
    (a1 - a0 = 0 \<or> 1 / 2 ^ 500 \<le> \<bar>a1 - a0\<bar>) \<and> \<bar>a1 - a0\<bar> \<le> 2 ^ 500 \<and>
    (b1 - b0 = 0 \<or> 1 / 2 ^ 500 \<le> \<bar>b1 - b0\<bar>) \<and> \<bar>b1 - b0\<bar> \<le> 2 ^ 500 \<and>
    radiusKm / 111 < sqrt ((a1 - a0)\<^sup>2 + (b1 - b0)\<^sup>2) * (1 - 1 / 2 ^ 50) \<longrightarrow>
      g \<notin> set (listGroupsNearby (Fin a0) (Fin b0) (Some (Fin radiusKm)) b))"
proof -
  have "\<not> near (Fin a0) (Fin b0) (Fin radiusKm) g"
    if "lat g = Fin a1" "lng g = Fin b1"
      "a1 - a0 = 0 \<or> 1 / 2 ^ 500 \<le> \<bar>a1 - a0\<bar>" "\<bar>a1 - a0\<bar> \<le> 2 ^ 500"
      "b1 - b0 = 0 \<or> 1 / 2 ^ 500 \<le> \<bar>b1 - b0\<bar>" "\<bar>b1 - b0\<bar> \<le> 2 ^ 500"
      "radiusKm / 111 < sqrt ((a1 - a0)\<^sup>2 + (b1 - b0)\<^sup>2) * (1 - 1 / 2 ^ 50)"
  proof -
    from that(7) have "radiusKm < sqrt ((a1 - a0)\<^sup>2 + (b1 - b0)\<^sup>2) * 111 * (1 - 1 / 2 ^ 50)"
      by (simp add: field_simps)
    with that(1-6) show ?thesis by (rule near_excludes)
  qed
  then show ?thesis
    by (auto simp: listGroupsNearby_def near_origin_same)
qed

theorem distance_filter_margin_witness:
  "study_room \<in> set (listGroupsNearby (Fin (29 / 2)) (Fin 121) (Some (Fin 0)) demo) \<and>
   study_room \<notin> set (listGroupsNearby (Fin (27 / 2)) (Fin 121) (Some (Fin 50)) demo)"
proof -
  have g: "study_room \<in> set (groups demo)" "lat study_room = Fin (29 / 2)"
    "lng study_room = Fin 121"
    by (simp_all add: demo_hello study_room_eq)
  have r: "js_le (Fin 0) (Fin 0)" by simp
  have far: "(29 / 2 - 27 / 2 = (0::real) \<or> 1 / 2 ^ 500 \<le> \<bar>29 / 2 - 27 / (2::real)\<bar>) \<and>
    \<bar>29 / 2 - 27 / (2::real)\<bar> \<le> 2 ^ 500 \<and>
    (121 - 121 = (0::real) \<or> 1 / 2 ^ 500 \<le> \<bar>121 - (121::real)\<bar>) \<and> \<bar>121 - (121::real)\<bar> \<le> 2 ^ 500 \<and>
    50 / 111 < sqrt ((29 / 2 - 27 / 2)\<^sup>2 + (121 - 121)\<^sup>2) * (1 - 1 / 2 ^ 50)"
    by simp
  from distance_filter_margin [of study_room demo "29 / 2" 121 "Fin 0" "29 / 2" 121 "27 / 2" 121 50]
    g r far
  show ?thesis by blast
qed

theorem distance_filter_keeps_beyond_threshold:
  "speck \<in> set (listGroupsNearby (Fin 0) (Fin 0) (Some (Fin 0)) \<lparr>groups = [speck], messages = [], prototype = None\<rparr>) \<and>
   lat speck = Fin (1 / 2 ^ 600) \<and> lng speck = Fin 0 \<and>
   0 / 111 < sqrt ((1 / 2 ^ 600 - 0)\<^sup>2 + (0 - 0)\<^sup>2)"
proof -
  have "speck \<in> set (listGroupsNearby (Fin 0) (Fin 0) (Some (Fin 0)) \<lparr>groups = [speck], messages = [], prototype = None\<rparr>)"
    by (simp add: listGroupsNearby_def near_speck)
  moreover have "lat speck = Fin (1 / 2 ^ 600)" "lng speck = Fin 0"
    by (simp_all add: speck_def tiny_def)
  moreover have "(0::real) / 111 < sqrt ((1 / 2 ^ 600 - 0)\<^sup>2 + (0 - 0)\<^sup>2)"
    by simp
  ultimately show ?thesis by blast
qed

theorem default_radius_keeps_beyond_threshold:
  "rim \<in> set (listGroupsNearby (Fin 0) (Fin 0) None \<lparr>groups = [rim], messages = [], prototype = None\<rparr>) \<and>
   lat rim = Fin (8114593923190083 / 2 ^ 54) \<and> lng rim = Fin 0 \<and>
   50 / 111 < sqrt ((8114593923190083 / 2 ^ 54 - 0)\<^sup>2 + (0 - 0)\<^sup>2)"
proof -
  have "rim \<in> set (listGroupsNearby (Fin 0) (Fin 0) None \<lparr>groups = [rim], messages = [], prototype = None\<rparr>)"
    by (simp add: listGroupsNearby_def near_rim)
  moreover have "lat rim = Fin (8114593923190083 / 2 ^ 54)" "lng rim = Fin 0"
    by (simp_all add: rim_def edge_def)
  moreover have "(50::real) / 111 < sqrt ((8114593923190083 / 2 ^ 54 - 0)\<^sup>2 + (0 - 0)\<^sup>2)"
    using edge_beyond by (simp add: edge_def)
  ultimately show ?thesis by blast
qed

text \<open>
  C7. The list that the list operation returns is sorted by \<open>expiresAt\<close>, the group that
  expires soonest first.
\<close>

theorem loadNearby_sorted: "sorted (map expiresAt (snd (loadNearby now loc b)))"
  by (simp add: loadNearby_def Let_def sorted_sort_by)

text \<open>
  C8. The sweep is idempotent: at one clock reading, sweeping the swept backend changes
  neither the groups nor the messages.
\<close>

theorem removeExpired_idempotent:
  "removeExpired now (removeExpired now b) = removeExpired now b"
  by (rule removeExpired_idem)


text \<open>
  C10. After a sweep every key of \<open>messages\<close> is the id of a group that is still listed
  and expires later; a key that no such group of the backend bears, an orphan included,
  has no collection left.
\<close>

theorem removeExpired_no_orphans:
  "(\<forall>k\<in>fst ` set (messages (removeExpired now b)).
      \<exists>g\<in>set (groups (removeExpired now b)). id_g g = k \<and> now < expiresAt g) \<and>
   (\<forall>k. (\<forall>g\<in>set (groups b). now < expiresAt g \<longrightarrow> id_g g \<noteq> k) \<longrightarrow>
      map_of (messages (removeExpired now b)) k = None)"
proof -
  have "map_of (messages (removeExpired now b)) k = None"
    if "\<forall>g\<in>set (groups b). now < expiresAt g \<longrightarrow> id_g g \<noteq> k" for k
  proof -
    from that have "k \<notin> fst ` set (messages (removeExpired now b))"
      by (auto simp: messages_removeExpired)
    then show ?thesis by (simp add: map_of_eq_None_iff)
  qed
  moreover have "\<forall>k\<in>fst ` set (messages (removeExpired now b)).
      \<exists>g\<in>set (groups (removeExpired now b)). id_g g = k \<and> now < expiresAt g"
    by (auto simp: messages_removeExpired groups_removeExpired)
  ultimately show ?thesis by blast
qed

theorem removeExpired_no_orphans_witness:
  "lit ''g1'' \<in> fst ` set (messages (removeExpired 3000 orphaned)) \<and>
   (\<exists>g\<in>set (groups (removeExpired 3000 orphaned)). id_g g = lit ''g1'' \<and> 3000 < expiresAt g) \<and>
   map_of (messages orphaned) (lit ''zz'') = Some [hello] \<and>
   map_of (messages (removeExpired 3000 orphaned)) (lit ''zz'') = None"
proof -
  have live: "lit ''g1'' \<in> fst ` set (messages (removeExpired 3000 orphaned))"
    by (simp only: stray_sweep) (simp add: demo_hello)
  have orphan: "\<forall>g\<in>set (groups orphaned). 3000 < expiresAt g \<longrightarrow> id_g g \<noteq> lit ''zz''"
    by (simp add: orphaned_def id_study_room lit_simps)
  have before: "map_of (messages orphaned) (lit ''zz'') = Some [hello]"
    by (simp add: orphaned_def lit_simps)
  from removeExpired_no_orphans [of 3000 orphaned] live orphan before
  show ?thesis by blast
qed

end
